theory Spec2Isabelle
  imports Complex_Main
begin

section \<open>Covariate search: data model of \<^verbatim>\<open>tools/covsearch/tool.py\<close>\<close>

text \<open>
  An effect literal is the 4-tuple \<^verbatim>\<open>(parameter, covariate, fp, operation)\<close> the search
  receives; \<^verbatim>\<open>effect[0]\<close> and \<^verbatim>\<open>effect[1]\<close> are its first two components.
\<close>

type_synonym EffectLiteral = "string \<times> string \<times> string \<times> string"

definition effect_0 :: "EffectLiteral \<Rightarrow> string" where
  "effect_0 e = fst e"

definition effect_1 :: "EffectLiteral \<Rightarrow> string" where
  "effect_1 e = fst (snd e)"

text \<open>The dataclass \<^verbatim>\<open>Effect\<close> with its two subclasses.\<close>

datatype Effect =
    AddEffect (parameter: string) (covariate: string) (fp: string) (operation: string)
  | RemoveEffect (parameter: string) (covariate: string) (fp: string) (operation: string)

text \<open>\<^verbatim>\<open>AddEffect(*effect)\<close>: the tuple unpacked into the four fields.\<close>

definition AddEffect_of :: "EffectLiteral \<Rightarrow> Effect" where
  "AddEffect_of e = (case e of (p, c, f, ope) \<Rightarrow> AddEffect p c f ope)"

text \<open>The dataclass \<^verbatim>\<open>Step\<close> with its two subclasses.\<close>

datatype Step =
    ForwardStep (alpha: real) (effect: Effect)
  | BackwardStep (alpha: real) (effect: Effect)

text \<open>\<^verbatim>\<open>isinstance(step, BackwardStep)\<close>, as \<^verbatim>\<open>_marke_df_steps_row\<close> computes it.\<close>

fun is_backward :: "Step \<Rightarrow> bool" where
  "is_backward (ForwardStep a e) = False"
| "is_backward (BackwardStep a e) = True"

text \<open>
  The fields of a model object that the search reads or writes. Python compares models
  with \<^verbatim>\<open>is\<close>, so the object's identity is a field of its own, \<open>oid\<close>; the fit results
  are opaque to the search (\<open>None\<close> when the model has none). An empty \<open>description\<close>
  stands for both of Python's falsy values, \<^verbatim>\<open>None\<close> and \<^verbatim>\<open>''\<close>.
\<close>

record 'r Model =
  oid :: nat
  name :: string
  description :: string
  parent_model :: "string option"
  modelfit_results :: "'r option"

record 'r Candidate =
  model :: "'r Model"
  steps :: "Step list"

datatype error =
  StopIteration | IndexError | AttributeError | ValueError | CycleError | KeyError | AssertionError

section \<open>Building one candidate\<close>

text \<open>Python's \<^verbatim>\<open>str\<close> of a non-negative integer, used by the f-strings.\<close>

definition digit_char :: "nat \<Rightarrow> char" where
  "digit_char d = ''0123456789'' ! d"

function str_nat :: "nat \<Rightarrow> string" where
  "str_nat n = (if n < 10 then [digit_char n] else str_nat (n div 10) @ [digit_char (n mod 10)])"
  by pat_completeness auto
termination
  by (relation "measure id") auto

declare str_nat.simps [simp del]

text \<open>\<^verbatim>\<open>", ".join(map(str, effect))\<close>\<close>

definition join_effect :: "EffectLiteral \<Rightarrow> string" where
  "join_effect e = (case e of (p, c, f, ope) \<Rightarrow> p @ '', '' @ c @ '', '' @ f @ '', '' @ ope)"

text \<open>
  \<^verbatim>\<open>task_add_covariate_effect(model, effect, effect_index)\<close>. \<^verbatim>\<open>copy_model\<close> makes a new
  object, whose identity \<open>new_oid\<close> the caller allocates; the copy is renamed, described
  and given the name of the model it was copied from as \<^verbatim>\<open>parent_model\<close>. The changes
  \<^verbatim>\<open>update_initial_estimates\<close> and \<^verbatim>\<open>add_covariate_effect\<close> make to the statements and
  parameters of the copy are outside the fields modelled here.
\<close>

definition task_add_covariate_effect ::
  "nat \<Rightarrow> 'r Model \<Rightarrow> EffectLiteral \<Rightarrow> nat \<Rightarrow> 'r Model" where
  "task_add_covariate_effect new_oid m eff effect_index =
     m\<lparr> oid := new_oid,
        name := name m @ ''-'' @ str_nat effect_index,
        description := ''add_covariate_effect(<''
            @ (if description m \<noteq> [] then description m else name m)
            @ ''>, '' @ join_effect eff @ '')'',
        parent_model := Some (name m) \<rparr>"

text \<open>
  Modelled from the spec: the execution engine (\<^verbatim>\<open>call_workflow\<close>) and
  \<^verbatim>\<open>create_fit_workflow\<close> are not among the sources. By sections 4.2 and 4.3 of the
  specification, executing the batch workflow of \<^verbatim>\<open>wf_effects_addition(model, effects)\<close>
  runs one branch per effect, in the order of the list: \<^verbatim>\<open>task_add_covariate_effect\<close>
  with index \<open>i\<close> (counted from 1), then the fit; the gathering task returns the fitted
  models in that order. The outcome of a fit is the parameter \<open>fit\<close>: the results it
  attaches to the model, \<open>None\<close> when the fit failed. The \<open>k\<close>-th new model object gets
  the identity \<open>oid0 + k\<close>, where \<open>oid0\<close> is the first identity not yet in use.
\<close>

definition call_workflow_effects_addition ::
  "('r Model \<Rightarrow> 'r option) \<Rightarrow> nat \<Rightarrow> 'r Model \<Rightarrow> EffectLiteral list \<Rightarrow> 'r Model list" where
  "call_workflow_effects_addition fit oid0 m effs =
     map (\<lambda>(k, eff).
            let m' = task_add_covariate_effect (oid0 + k) m eff (Suc k)
            in m'\<lparr> modelfit_results := fit m' \<rparr>)
         (zip [0 ..< length effs] effs)"

section \<open>The greedy forward search\<close>

text \<open>
  The local variables of \<^verbatim>\<open>task_greedy_forward_search\<close>, together with the two effects
  of the loop body on its environment: the object identities handed out so far
  (\<open>next_oid\<close> is the first free one) and the workflows submitted to the engine, each
  logged with its unique name and the models it returned.
\<close>

record 'r search_state =
  candidate_effects :: "EffectLiteral list"
  best_candidate_so_far :: "'r Candidate"
  all_candidates_so_far :: "'r Candidate list"
  next_oid :: nat
  calls :: "(string \<times> 'r Model list) list"

datatype ('a, 's) flow = Continue 's | Return 'a | Raise error

definition NAME_WF :: string where
  "NAME_WF = ''covariates''"

text \<open>
  The candidates appended by \<^verbatim>\<open>all_candidates_so_far.extend(...)\<close>: one per pair of
  \<^verbatim>\<open>zip(new_candidate_models, candidate_effects)\<close>, each extending the step history
  of the current best candidate by one forward step.
\<close>

definition new_candidates ::
  "real \<Rightarrow> 'r Candidate \<Rightarrow> 'r Model list \<Rightarrow> EffectLiteral list \<Rightarrow> 'r Candidate list" where
  "new_candidates p_forward best ms effs =
     map (\<lambda>(m, eff). \<lparr> model = m, steps = steps best @ [ForwardStep p_forward (AddEffect_of eff)] \<rparr>)
         (zip ms effs)"

text \<open>
  \<^verbatim>\<open>next(filter(lambda candidate: candidate.model is best_model_so_far, ...))\<close>: the first
  candidate whose model is that very object; \<^verbatim>\<open>StopIteration\<close> when there is none.
\<close>

definition next_candidate :: "'r Model \<Rightarrow> 'r Candidate list \<Rightarrow> error + 'r Candidate" where
  "next_candidate best cands =
     (case List.find (\<lambda>c. oid (model c) = oid best) cands of
        None \<Rightarrow> Inl StopIteration
      | Some c \<Rightarrow> Inr c)"

text \<open>\<^verbatim>\<open>steps[-1]\<close>: the last step, \<^verbatim>\<open>IndexError\<close> on the empty tuple.\<close>

definition last_step :: "Step list \<Rightarrow> error + Step" where
  "last_step ss = (if ss = [] then Inl IndexError else Inr (last ss))"

text \<open>The list comprehension that filters out the incompatible effects.\<close>

definition filter_effects :: "Effect \<Rightarrow> EffectLiteral list \<Rightarrow> EffectLiteral list" where
  "filter_effects added_effect effs =
     filter (\<lambda>eff. effect_0 eff \<noteq> parameter added_effect \<or> effect_1 eff \<noteq> covariate added_effect) effs"

text \<open>
  One pass through the body of the \<^verbatim>\<open>for\<close> loop, after the test for an empty pool. The
  ranking \<^verbatim>\<open>lrt_best_of_many\<close> is not among the sources and is the parameter
  \<open>best_of_many\<close>. The pass either returns the candidate list, raises, or falls through
  to the next iteration with the updated locals.
\<close>

definition search_round ::
  "('r Model \<Rightarrow> 'r option) \<Rightarrow> ('r Model \<Rightarrow> 'r Model list \<Rightarrow> real \<Rightarrow> 'r Model) \<Rightarrow> real \<Rightarrow> nat
     \<Rightarrow> 'r search_state \<Rightarrow> ('r search_state, 'r search_state) flow" where
  "search_round fit best_of_many p_forward step st =
     (let new_candidate_models =
            call_workflow_effects_addition fit (next_oid st)
              (model (best_candidate_so_far st)) (candidate_effects st);
          st1 = st\<lparr> next_oid := next_oid st + length new_candidate_models,
                    calls := calls st @
                      [(NAME_WF @ ''-effects_addition-'' @ str_nat step, new_candidate_models)],
                    all_candidates_so_far := all_candidates_so_far st @
                      new_candidates p_forward (best_candidate_so_far st)
                        new_candidate_models (candidate_effects st) \<rparr>;
          parent = model (best_candidate_so_far st);
          best_model_so_far = best_of_many parent new_candidate_models p_forward
      in if oid best_model_so_far = oid parent then Return st1
         else case next_candidate best_model_so_far (all_candidates_so_far st1) of
                Inl e \<Rightarrow> Raise e
              | Inr best \<Rightarrow>
                 (case last_step (steps best) of
                    Inl e \<Rightarrow> Raise e
                  | Inr s \<Rightarrow>
                      Continue (st1\<lparr> best_candidate_so_far := best,
                                     candidate_effects :=
                                       filter_effects (effect s) (candidate_effects st) \<rparr>)))"

text \<open>
  The \<^verbatim>\<open>for step in steps\<close> loop. The iterator is \<^verbatim>\<open>range(1, max_steps + 1)\<close> or the
  endless \<^verbatim>\<open>count(1)\<close>: \<open>remaining\<close> is the number of values it still has to give,
  \<open>None\<close> for the endless one, and \<open>step\<close> is the next value. Since the endless iterator
  gives no bound on the iterations, the loop is a partial function: not returning is
  the value \<open>None\<close>.
\<close>

partial_function (option) greedy_loop ::
  "('r Model \<Rightarrow> 'r option) \<Rightarrow> ('r Model \<Rightarrow> 'r Model list \<Rightarrow> real \<Rightarrow> 'r Model) \<Rightarrow> real
     \<Rightarrow> nat option \<Rightarrow> nat \<Rightarrow> 'r search_state \<Rightarrow> (error + 'r search_state) option" where
  "greedy_loop fit best_of_many p_forward remaining step st =
     (if remaining = Some 0 then Some (Inr st)
      else if candidate_effects st = [] then Some (Inr st)
      else case search_round fit best_of_many p_forward step st of
             Raise e \<Rightarrow> Some (Inl e)
           | Return st' \<Rightarrow> Some (Inr st')
           | Continue st' \<Rightarrow>
               greedy_loop fit best_of_many p_forward
                 (map_option (\<lambda>n. n - 1) remaining) (Suc step) st')"

declare greedy_loop.simps [code]

text \<open>The locals before the loop; the input model is the only object so far.\<close>

definition initial_state :: "EffectLiteral list \<Rightarrow> 'r Model \<Rightarrow> 'r search_state" where
  "initial_state effs m =
     \<lparr> candidate_effects = effs,
       best_candidate_so_far = \<lparr> model = m, steps = [] \<rparr>,
       all_candidates_so_far = [\<lparr> model = m, steps = [] \<rparr>],
       next_oid = Suc (oid m),
       calls = [] \<rparr>"

text \<open>
  \<^verbatim>\<open>task_greedy_forward_search(effects, p_forward, max_steps, model)\<close>. The result is the
  final state of the locals: the function's return value is its \<open>all_candidates_so_far\<close>,
  and its \<open>calls\<close> are the workflows the search has submitted, one per round.
\<close>

definition task_greedy_forward_search ::
  "('r Model \<Rightarrow> 'r option) \<Rightarrow> ('r Model \<Rightarrow> 'r Model list \<Rightarrow> real \<Rightarrow> 'r Model)
     \<Rightarrow> EffectLiteral list \<Rightarrow> real \<Rightarrow> int \<Rightarrow> 'r Model \<Rightarrow> (error + 'r search_state) option" where
  "task_greedy_forward_search fit best_of_many effs p_forward max_steps m =
     greedy_loop fit best_of_many p_forward
       (if max_steps \<ge> 0 then Some (nat max_steps) else None) 1 (initial_state effs m)"

section \<open>Workflows\<close>

text \<open>
  Modelled from the spec: the classes \<^verbatim>\<open>Task\<close> and \<^verbatim>\<open>Workflow\<close> (\<^verbatim>\<open>pharmpy.workflows\<close>) are
  not among the sources; only their tests (\<^verbatim>\<open>tests/tools/test_workflows.py\<close>) and their
  callers are. The definitions of this section follow sections 3, 4.1 and 8 of the
  specification. A workflow owns a directed graph: its nodes are task handles, compared
  by identity, kept in insertion order; its edges, "predecessor produces input consumed
  by successor", are kept in insertion order and without duplicates.
\<close>

record 't Workflow =
  nodes :: "'t list"
  edges :: "('t \<times> 't) list"

text \<open>Modelled from the spec: \<^verbatim>\<open>Workflow()\<close>, created empty.\<close>

definition empty_workflow :: "'t Workflow" where
  "empty_workflow = \<lparr> nodes = [], edges = [] \<rparr>"

text \<open>
  Modelled from the spec: \<^verbatim>\<open>add_tasks(tasks)\<close> inserts the tasks as nodes, in order; a
  task that is a node already stays where it is.
\<close>

definition add_node :: "'t \<Rightarrow> 't list \<Rightarrow> 't list" where
  "add_node t ns = (if t \<in> set ns then ns else ns @ [t])"

definition add_tasks :: "'t Workflow \<Rightarrow> 't list \<Rightarrow> 't Workflow" where
  "add_tasks w ts = w\<lparr> nodes := fold add_node ts (nodes w) \<rparr>"

text \<open>Modelled from the spec: \<^verbatim>\<open>Workflow(tasks)\<close>, seeded with an initial task list.\<close>

definition new_workflow :: "'t list \<Rightarrow> 't Workflow" where
  "new_workflow ts = add_tasks empty_workflow ts"

text \<open>Modelled from the spec: adding a directed edge; an edge is there once.\<close>

definition add_edge :: "'t \<times> 't \<Rightarrow> ('t \<times> 't) list \<Rightarrow> ('t \<times> 't) list" where
  "add_edge e es = (if e \<in> set es then es else es @ [e])"

definition add_edges :: "('t \<times> 't) list \<Rightarrow> ('t \<times> 't) list \<Rightarrow> ('t \<times> 't) list" where
  "add_edges new es = fold add_edge new es"

text \<open>
  Modelled from the spec: the successors and predecessors of a task, in the order in
  which the edges were added (the tests compare them as lists), and the two degrees.
\<close>

definition successors :: "'t Workflow \<Rightarrow> 't \<Rightarrow> 't list" where
  "successors w t = map snd (filter (\<lambda>e. fst e = t) (edges w))"

definition predecessors :: "'t Workflow \<Rightarrow> 't \<Rightarrow> 't list" where
  "predecessors w t = map fst (filter (\<lambda>e. snd e = t) (edges w))"

definition out_degree :: "'t Workflow \<Rightarrow> 't \<Rightarrow> nat" where
  "out_degree w t = length (successors w t)"

definition in_degree :: "'t Workflow \<Rightarrow> 't \<Rightarrow> nat" where
  "in_degree w t = length (predecessors w t)"

text \<open>
  Modelled from the spec: \<^verbatim>\<open>get_leaf_tasks()\<close> "returns nodes with out-degree zero, in
  insertion order"; the source tasks of a workflow are its nodes of in-degree zero.
\<close>

definition get_leaf_tasks :: "'t Workflow \<Rightarrow> 't list" where
  "get_leaf_tasks w = filter (\<lambda>t. out_degree w t = 0) (nodes w)"

definition get_source_tasks :: "'t Workflow \<Rightarrow> 't list" where
  "get_source_tasks w = filter (\<lambda>t. in_degree w t = 0) (nodes w)"

text \<open>
  Modelled from the spec: the mapping given to \<^verbatim>\<open>connect_tasks\<close> sends a predecessor to
  "one-or-many successors", one task or a list of them. The mapping itself is a
  dictionary, here the list of its items in insertion order.
\<close>

datatype 't succs = One 't | Many "'t list"

fun succ_list :: "'t succs \<Rightarrow> 't list" where
  "succ_list (One t) = [t]"
| "succ_list (Many ts) = ts"

definition requested_edges :: "('t \<times> 't succs) list \<Rightarrow> ('t \<times> 't) list" where
  "requested_edges mapping = concat (map (\<lambda>(p, ss). map (Pair p) (succ_list ss)) mapping)"

text \<open>
  Modelled from the spec: \<^verbatim>\<open>connect_tasks(mapping)\<close> "for each predecessor, successor(s)
  pair, adds a directed edge; raises an error if predecessor equals successor
  (self-loop) or if the resulting graph contains a cycle". Connecting a task to itself
  is a \<^verbatim>\<open>ValueError\<close>; the specification leaves the class of the other error open. By
  the invariant "acyclic at all times; adding an edge that would create a cycle is
  rejected with an error", a call that raises leaves the graph as it was. The method
  mutates the workflow and may raise: the result is the workflow after the call and
  the exception raised, if any.
\<close>

definition connect_tasks ::
  "'t Workflow \<Rightarrow> ('t \<times> 't succs) list \<Rightarrow> 't Workflow \<times> error option" where
  "connect_tasks w mapping =
     (let new = requested_edges mapping
      in if list_ex (\<lambda>(p, s). p = s) new then (w, Some ValueError)
         else let w' = w\<lparr> edges := add_edges new (edges w) \<rparr>
              in if acyclic (set (edges w')) then (w', None) else (w, Some CycleError))"

text \<open>A sequence of calls on the same workflow, whose caller catches every exception.\<close>

fun connect_tasks_seq :: "'t Workflow \<Rightarrow> ('t \<times> 't succs) list list \<Rightarrow> 't Workflow" where
  "connect_tasks_seq w [] = w"
| "connect_tasks_seq w (mapping # rest) = connect_tasks_seq (fst (connect_tasks w mapping)) rest"

text \<open>
  Modelled from the spec: \<^verbatim>\<open>insert_workflow(other, predecessors=None)\<close> "merges other's
  nodes/edges into self; if predecessors given (defaults to self's current leaf tasks
  when connecting sequentially), wires every source node of other (in-degree zero in
  other) to follow every given predecessor. If no predecessors given and caller
  intends parallel composition, nodes are merged disjointly (no new edges)". The
  caller's intent is the flag \<^verbatim>\<open>connect\<close> of section 8 of the specification and of the
  tests.
\<close>

definition compose :: "'t Workflow \<Rightarrow> 't Workflow \<Rightarrow> 't Workflow" where
  "compose self other =
     \<lparr> nodes = fold add_node (nodes other) (nodes self),
       edges = add_edges (edges other) (edges self) \<rparr>"

definition wiring :: "'t list \<Rightarrow> 't list \<Rightarrow> ('t \<times> 't) list" where
  "wiring preds srcs = concat (map (\<lambda>s. map (\<lambda>p. (p, s)) preds) srcs)"

definition insert_workflow ::
  "'t Workflow \<Rightarrow> 't Workflow \<Rightarrow> 't list option \<Rightarrow> bool \<Rightarrow> 't Workflow" where
  "insert_workflow self other preds connect =
     (let ps = (case preds of
                  Some given \<Rightarrow> given
                | None \<Rightarrow> if connect then get_leaf_tasks self else []);
          merged = compose self other
      in merged\<lparr> edges := add_edges (wiring ps (get_source_tasks other)) (edges merged) \<rparr>)"

text \<open>
  Modelled from the spec: \<^verbatim>\<open>merge_workflows(other, connect)\<close>, the name under which the
  tests call the merge of section 8 of the specification.
\<close>

definition merge_workflows :: "'t Workflow \<Rightarrow> 't Workflow \<Rightarrow> bool \<Rightarrow> 't Workflow" where
  "merge_workflows self other connect = insert_workflow self other None connect"

text \<open>
  The invariant of the graph of a workflow: the nodes are distinct, the edges are
  distinct and join nodes of the workflow ("every Task referenced by an edge must
  already be a node").
\<close>

definition well_formed :: "'t Workflow \<Rightarrow> bool" where
  "well_formed w \<longleftrightarrow>
     distinct (nodes w) \<and> distinct (edges w) \<and>
     list_all (\<lambda>e. fst e \<in> set (nodes w) \<and> snd e \<in> set (nodes w)) (edges w)"

text \<open>The workflows of the tests: \<open>t1\<close> connected to \<open>t2\<close> and \<open>t3\<close>; \<open>t4\<close> alone; the diamond.\<close>

definition ex_wf :: "string Workflow" where
  "ex_wf = fst (connect_tasks (new_workflow [''t1'', ''t2'', ''t3'']) [(''t1'', Many [''t2'', ''t3''])])"

definition ex_wf_t4 :: "string Workflow" where
  "ex_wf_t4 = new_workflow [''t4'']"


definition ex_wf_dag :: "string Workflow" where
  "ex_wf_dag = fst (connect_tasks (new_workflow [''t1'', ''t2'', ''t3'', ''t4''])
       [(''t1'', Many [''t2'', ''t3'']), (''t2'', One ''t4''), (''t3'', One ''t4'')])"


subsection \<open>The batch workflow of one round (\<^verbatim>\<open>wf_effects_addition\<close>)\<close>











section \<open>Reading the results of a fit (\<^verbatim>\<open>plugins/nonmem/results.py\<close>)\<close>

text \<open>A Python float that may be \<^verbatim>\<open>np.nan\<close>.\<close>

datatype pyfloat = NaN | Float real

text \<open>
  What the reader uses of a model: for each parameter its name and whether it is fixed,
  and for each estimation step whether the covariance step is requested (\<^verbatim>\<open>.cov\<close>).
\<close>

record EstimationStep =
  cov :: bool

record Parameter =
  parameter_name :: string
  fixed :: bool

record NMModel =
  parameters :: "Parameter list"
  estimation_steps :: "EstimationStep list"

text \<open>\<^verbatim>\<open>list(model.parameters.nonfixed.inits.keys())\<close>\<close>

definition nonfixed_inits_keys :: "NMModel \<Rightarrow> string list" where
  "nonfixed_inits_keys m = map parameter_name (filter (\<lambda>p. \<not> fixed p) (parameters m))"

text \<open>
  A \<^verbatim>\<open>pd.Series\<close>: its name and its entries, index label and value, in order;
  \<^verbatim>\<open>pd.Series(np.nan, name=n, index=keys)\<close> has the value NaN at every label.
\<close>

record Series =
  series_name :: string
  items :: "(string \<times> pyfloat) list"

definition nan_series :: "string \<Rightarrow> string list \<Rightarrow> Series" where
  "nan_series n keys = \<lparr> series_name = n, items = map (\<lambda>k. (k, NaN)) keys \<rparr>"

text \<open>
  A \<^verbatim>\<open>pathlib.Path\<close> with the three parts the reader uses: the directory part (empty or
  \<open>.\<close> for a bare file name, \<open>/\<close> for a file in the root), the stem and the suffix.
  \<^verbatim>\<open>str\<close> of a path writes no directory for a bare file name and no second separator
  after a directory that ends with one: \<^verbatim>\<open>str(Path('pheno.lst').with_suffix('.ext'))\<close> is
  \<^verbatim>\<open>pheno.ext\<close> and \<^verbatim>\<open>str(Path('/pheno.lst').with_suffix('.ext'))\<close> is \<^verbatim>\<open>/pheno.ext\<close>.
\<close>

record Path =
  parent_dir :: string
  stem :: string
  suffix :: string

definition with_suffix :: "Path \<Rightarrow> string \<Rightarrow> Path" where
  "with_suffix p s = p\<lparr> suffix := s \<rparr>"

definition path_str :: "Path \<Rightarrow> string" where
  "path_str p =
     (if parent_dir p = [] \<or> parent_dir p = ''.'' then stem p @ suffix p
      else if last (parent_dir p) = CHR ''/'' then parent_dir p @ stem p @ suffix p
      else parent_dir p @ ''/'' @ stem p @ suffix p)"

text \<open>
  The attributes of a \<^verbatim>\<open>NONMEMModelfitResults\<close> object that the reader sets when the
  ext-file is broken; \<open>None\<close> is an attribute that is \<^verbatim>\<open>None\<close> or not set. A new object
  has none of them.
\<close>

record ModelfitResults =
  model_name :: "string option"
  results_model :: "NMModel option"
  parameter_estimates :: "Series option"
  ofv :: "pyfloat option"
  standard_errors :: "Series option"
  table_number :: "nat option"

definition NONMEMModelfitResults :: ModelfitResults where
  "NONMEMModelfitResults =
     \<lparr> model_name = None, results_model = None, parameter_estimates = None, ofv = None,
       standard_errors = None, table_number = None \<rparr>"

text \<open>
  A \<^verbatim>\<open>NONMEMChainedModelfitResults\<close>: its log, its path, its model (\<^verbatim>\<open>model=None\<close> is the
  default of the constructor) and, since the class is a list, its elements.
\<close>

record ChainedModelfitResults =
  log_entries :: "(string \<times> string) list"
  chain_path :: Path
  chain_model :: "NMModel option"
  chain :: "ModelfitResults list"

text \<open>
  Modelled from the spec: the class \<^verbatim>\<open>Log\<close> (\<^verbatim>\<open>pharmpy.workflows.log\<close>) is not among the
  sources; \<^verbatim>\<open>log_error\<close> adds an entry of category error to the run log.
\<close>

definition log_error :: "ChainedModelfitResults \<Rightarrow> string \<Rightarrow> ChainedModelfitResults" where
  "log_error self msg = self\<lparr> log_entries := log_entries self @ [(''ERROR'', msg)] \<rparr>"

text \<open>
  \<^verbatim>\<open>_fill_empty_results(self, result_obj, is_covariance_step)\<close>. Reading
  \<^verbatim>\<open>self.model.parameters\<close> raises \<^verbatim>\<open>AttributeError\<close> when the model is \<^verbatim>\<open>None\<close>.
\<close>

definition fill_empty_results ::
  "ChainedModelfitResults \<Rightarrow> ModelfitResults \<Rightarrow> bool \<Rightarrow> error + ModelfitResults" where
  "fill_empty_results self result_obj is_covariance_step =
     (case chain_model self of
        None \<Rightarrow> Inl AttributeError
      | Some m \<Rightarrow>
          Inr (result_obj\<lparr>
                 parameter_estimates := Some (nan_series ''estimates'' (nonfixed_inits_keys m)),
                 ofv := Some NaN,
                 standard_errors :=
                   (if is_covariance_step then Some (nan_series ''SE'' (nonfixed_inits_keys m))
                    else None) \<rparr>))"

text \<open>
  \<^verbatim>\<open>_read_ext_table(self)\<close>. The outcome of \<^verbatim>\<open>NONMEMTableFile(path)\<close> is the parameter
  \<open>ext_file\<close>: the exception it raises or the tables it parsed. Only \<^verbatim>\<open>ValueError\<close> is
  caught. The rest of the method, which reads the parsed tables (lines 119 to 198),
  works on table objects that are not among the sources and is the parameter
  \<open>read_tables\<close>. In the handler, \<^verbatim>\<open>self.model.estimation_steps[0]\<close> raises
  \<^verbatim>\<open>AttributeError\<close> when the model is \<^verbatim>\<open>None\<close> and \<^verbatim>\<open>IndexError\<close> when the model has no
  estimation step.
\<close>

definition read_ext_table ::
  "(ChainedModelfitResults \<Rightarrow> 'tables \<Rightarrow> error + ChainedModelfitResults)
     \<Rightarrow> error + 'tables \<Rightarrow> ChainedModelfitResults \<Rightarrow> error + ChainedModelfitResults" where
  "read_ext_table read_tables ext_file self =
     (case ext_file of
        Inl ValueError \<Rightarrow>
          (let self1 = log_error self
                 (''Broken ext-file '' @ path_str (with_suffix (chain_path self) ''.ext''));
               result_obj = NONMEMModelfitResults\<lparr>
                 model_name := Some (stem (chain_path self1)),
                 results_model := chain_model self1 \<rparr>
           in case chain_model self1 of
                None \<Rightarrow> Inl AttributeError
              | Some m \<Rightarrow>
                 (case estimation_steps m of
                    [] \<Rightarrow> Inl IndexError
                  | step0 # _ \<Rightarrow>
                     (case fill_empty_results self1 result_obj (cov step0) of
                        Inl e \<Rightarrow> Inl e
                      | Inr filled \<Rightarrow>
                          Inr (self1\<lparr> chain := chain self1 @ [filled\<lparr> table_number := Some 1 \<rparr>] \<rparr>))))
      | Inl e \<Rightarrow> Inl e
      | Inr ext_tables \<Rightarrow> read_tables self ext_tables)"

text \<open>A model with two free parameters and one fixed, and a results object to be read.\<close>

definition ex_nm_model :: NMModel where
  "ex_nm_model =
     \<lparr> parameters = [\<lparr> parameter_name = ''THETA(1)'', fixed = False \<rparr>,
                     \<lparr> parameter_name = ''THETA(2)'', fixed = True \<rparr>,
                     \<lparr> parameter_name = ''OMEGA(1,1)'', fixed = False \<rparr>],
       estimation_steps = [\<lparr> cov = True \<rparr>] \<rparr>"

definition ex_chain :: "NMModel option \<Rightarrow> ChainedModelfitResults" where
  "ex_chain m =
     \<lparr> log_entries = [], chain_path = \<lparr> parent_dir = ''run'', stem = ''pheno'', suffix = ''.lst'' \<rparr>,
       chain_model = m, chain = [] \<rparr>"


section \<open>The table of steps\<close>

text \<open>
  One row of the data frame of \<^verbatim>\<open>_make_df_steps\<close>: the dictionary that
  \<^verbatim>\<open>_marke_df_steps_row\<close> returns. The first three fields and the last two are the keys
  \<^verbatim>\<open>step\<close>, \<^verbatim>\<open>parameter\<close>, \<^verbatim>\<open>covariate\<close>, \<^verbatim>\<open>is_backward\<close> and \<^verbatim>\<open>model\<close>.
\<close>

record df_row =
  row_step :: nat
  row_parameter :: string
  row_covariate :: string
  extended_state :: string
  reduced_ofv :: real
  extended_ofv :: real
  ofv_drop :: real
  delta_df :: int
  pvalue :: real
  goal_pvalue :: real
  row_is_backward :: bool
  extended_significant :: bool
  selected :: bool
  directory :: string
  row_model :: string
  covariate_effects :: pyfloat

text \<open>
  \<^verbatim>\<open>model.modelfit_results.ofv\<close>, for models whose fit results are their objective
  function value: \<^verbatim>\<open>AttributeError\<close> when the model has no results.
\<close>

definition ofv_of :: "real Model \<Rightarrow> error + real" where
  "ofv_of m = (case modelfit_results m of None \<Rightarrow> Inl AttributeError | Some v \<Rightarrow> Inr v)"

text \<open>
  \<^verbatim>\<open>_marke_df_steps_row(models_dict, children_count, best_model, candidate)\<close>. The
  p-value \<^verbatim>\<open>lrt_p_value\<close> is not among the sources and is a parameter, as are
  \<^verbatim>\<open>len(model.parameters)\<close> and \<^verbatim>\<open>str(model.database.path)\<close>, which read parts of a model
  that are not modelled. \<^verbatim>\<open>models_dict[model.parent_model]\<close> raises \<^verbatim>\<open>KeyError\<close> for a name
  that is not a key (and for \<^verbatim>\<open>None\<close>); a \<^verbatim>\<open>Counter\<close> gives 0 for a key it has not
  counted; the \<^verbatim>\<open>assert\<close> raises \<^verbatim>\<open>AssertionError\<close>.
\<close>

definition marke_df_steps_row ::
  "(real Model \<Rightarrow> real Model \<Rightarrow> real) \<Rightarrow> (real Model \<Rightarrow> nat) \<Rightarrow> (real Model \<Rightarrow> string)
     \<Rightarrow> (string \<rightharpoonup> real Model) \<Rightarrow> (string option \<Rightarrow> nat) \<Rightarrow> real Model \<Rightarrow> real Candidate
     \<Rightarrow> error + df_row" where
  "marke_df_steps_row lrt_p_value n_parameters database_path models_dict children_count
       best_model candidate =
     (let m = model candidate in
      case (case parent_model m of None \<Rightarrow> None | Some k \<Rightarrow> models_dict k) of
        None \<Rightarrow> Inl KeyError
      | Some parent \<Rightarrow>
         (case ofv_of parent of
            Inl e \<Rightarrow> Inl e
          | Inr reduced \<Rightarrow>
             (case ofv_of m of
                Inl e \<Rightarrow> Inl e
              | Inr extended \<Rightarrow>
                 (case last_step (steps candidate) of
                    Inl e \<Rightarrow> Inl e
                  | Inr final_step \<Rightarrow>
                     (let last_effect = effect final_step;
                          p_value = lrt_p_value parent m;
                          sel = (children_count (Some (name m)) \<ge> 1 \<or> oid m = oid best_model);
                          sig = (p_value \<le> alpha final_step)
                      in if \<not> sel \<or> sig
                         then Inr \<lparr> row_step = length (steps candidate),
                                    row_parameter = parameter last_effect,
                                    row_covariate = covariate last_effect,
                                    extended_state = operation last_effect @ '' '' @ fp last_effect,
                                    reduced_ofv = reduced,
                                    extended_ofv = extended,
                                    ofv_drop = reduced - extended,
                                    delta_df = int (n_parameters m) - int (n_parameters parent),
                                    pvalue = p_value,
                                    goal_pvalue = alpha final_step,
                                    row_is_backward = is_backward final_step,
                                    extended_significant = sig,
                                    selected = sel,
                                    directory = database_path m,
                                    row_model = name m,
                                    covariate_effects = NaN \<rparr>
                         else Inl AssertionError)))))"

text \<open>
  \<^verbatim>\<open>pd.DataFrame.from_records\<close> consumes the generator of the rows: the first row that
  raises ends it.
\<close>

fun from_records :: "(error + 'a) list \<Rightarrow> error + 'a list" where
  "from_records [] = Inr []"
| "from_records (Inl e # rs) = Inl e"
| "from_records (Inr r # rs) = (case from_records rs of Inl e \<Rightarrow> Inl e | Inr rows \<Rightarrow> Inr (r # rows))"

text \<open>
  \<^verbatim>\<open>_make_df_steps(best_model, candidates)\<close>. In the dictionary comprehension a later
  candidate replaces an earlier one of the same name; the counter counts the
  \<^verbatim>\<open>parent_model\<close> of every candidate, the starting candidate included; a row is made
  for every candidate that has steps.
\<close>

definition make_df_steps ::
  "(real Model \<Rightarrow> real Model \<Rightarrow> real) \<Rightarrow> (real Model \<Rightarrow> nat) \<Rightarrow> (real Model \<Rightarrow> string)
     \<Rightarrow> real Model \<Rightarrow> real Candidate list \<Rightarrow> error + df_row list" where
  "make_df_steps lrt_p_value n_parameters database_path best_model candidates =
     (let models_dict = map_of (rev (map (\<lambda>c. (name (model c), model c)) candidates));
          children_count = (\<lambda>k. length (filter (\<lambda>c. parent_model (model c) = k) candidates))
      in from_records
           (map (marke_df_steps_row lrt_p_value n_parameters database_path models_dict
                   children_count best_model)
                (filter (\<lambda>c. steps c \<noteq> []) candidates)))"

section \<open>Properties of the search\<close>

text \<open>
  What the search relies on from the ranking (section 4.3 of the specification: it
  selects "the single best-improving candidate, or, if none improves significantly, the
  parent itself"): the model it returns is the parent or one of the candidates given.
\<close>

definition best_of_many_contract :: "('r Model \<Rightarrow> 'r Model list \<Rightarrow> real \<Rightarrow> 'r Model) \<Rightarrow> bool" where
  "best_of_many_contract best_of_many \<longleftrightarrow>
     (\<forall>parent ms a. best_of_many parent ms a = parent \<or> best_of_many parent ms a \<in> set ms)"

text \<open>
  The invariant of the loop: every candidate's model has an identity that is in use,
  and the best candidate is one of the candidates.
\<close>

definition search_inv :: "'r search_state \<Rightarrow> bool" where
  "search_inv st \<longleftrightarrow>
     (\<forall>c \<in> set (all_candidates_so_far st). oid (model c) < next_oid st) \<and>
     best_candidate_so_far st \<in> set (all_candidates_so_far st)"

text \<open>The states in which the loop can begin an iteration.\<close>

inductive reachable ::
  "('r Model \<Rightarrow> 'r option) \<Rightarrow> ('r Model \<Rightarrow> 'r Model list \<Rightarrow> real \<Rightarrow> 'r Model) \<Rightarrow> real
     \<Rightarrow> EffectLiteral list \<Rightarrow> 'r Model \<Rightarrow> 'r search_state \<Rightarrow> bool"
  for fit best_of_many p_forward effs m where
    start: "reachable fit best_of_many p_forward effs m (initial_state effs m)"
  | round: "reachable fit best_of_many p_forward effs m st \<Longrightarrow> candidate_effects st \<noteq> [] \<Longrightarrow>
            search_round fit best_of_many p_forward step st = Continue st' \<Longrightarrow>
            reachable fit best_of_many p_forward effs m st'"

text \<open>
  The iterator of line 169 as the loop holds it: \<^verbatim>\<open>range(1, max_steps + 1)\<close> has
  \<open>max_steps\<close> values left, \<^verbatim>\<open>count(1)\<close> never runs out (\<open>None\<close>).
\<close>

definition iterator_of :: "int \<Rightarrow> nat option" where
  "iterator_of max_steps = (if max_steps \<ge> 0 then Some (nat max_steps) else None)"

text \<open>
  The iterations of one run of the loop: \<open>loop_reaches \<dots> remaining0 step0 st0 remaining step st\<close>
  holds when the loop entered with the iterator \<open>remaining0\<close>, the step \<open>step0\<close> and the
  locals \<open>st0\<close> begins an iteration with the iterator \<open>remaining\<close>, the step \<open>step\<close> and
  the locals \<open>st\<close>: every iteration before it found the iterator and the pool not empty
  and selected one of its new candidates.
\<close>

inductive loop_reaches ::
  "('r Model \<Rightarrow> 'r option) \<Rightarrow> ('r Model \<Rightarrow> 'r Model list \<Rightarrow> real \<Rightarrow> 'r Model) \<Rightarrow> real
     \<Rightarrow> nat option \<Rightarrow> nat \<Rightarrow> 'r search_state \<Rightarrow> nat option \<Rightarrow> nat \<Rightarrow> 'r search_state \<Rightarrow> bool"
  for fit best_of_many p_forward remaining0 step0 st0 where
    first: "loop_reaches fit best_of_many p_forward remaining0 step0 st0 remaining0 step0 st0"
  | next_round:
      "loop_reaches fit best_of_many p_forward remaining0 step0 st0 remaining step st \<Longrightarrow>
       remaining \<noteq> Some 0 \<Longrightarrow> candidate_effects st \<noteq> [] \<Longrightarrow>
       search_round fit best_of_many p_forward step st = Continue st' \<Longrightarrow>
       loop_reaches fit best_of_many p_forward remaining0 step0 st0
         (map_option (\<lambda>n. n - 1) remaining) (Suc step) st'"

text \<open>The models returned by the workflow that a round submits in state \<open>st\<close>.\<close>

definition round_batch :: "('r Model \<Rightarrow> 'r option) \<Rightarrow> 'r search_state \<Rightarrow> 'r Model list" where
  "round_batch fit st =
     call_workflow_effects_addition fit (next_oid st) (model (best_candidate_so_far st))
       (candidate_effects st)"

text \<open>
  The full candidate history: the candidate list begins with the zero-step candidate of
  the input model \<open>m\<close> and goes on with one candidate for each model returned by each
  submitted workflow, in the order of the rounds.
\<close>

definition full_history :: "'r Model \<Rightarrow> 'r search_state \<Rightarrow> bool" where
  "full_history m st \<longleftrightarrow>
     (case all_candidates_so_far st of
        [] \<Rightarrow> False
      | c # rest \<Rightarrow> c = \<lparr> model = m, steps = [] \<rparr> \<and> map model rest = concat (map snd (calls st)))"

text \<open>
  Provenance of a candidate list: only its first candidate has no steps; every other
  candidate names as \<^verbatim>\<open>parent_model\<close> the model of an earlier candidate of the list, has
  the steps of that candidate and one more, a forward one, and has no backward step.
\<close>

definition provenance :: "'r Candidate list \<Rightarrow> bool" where
  "provenance cands \<longleftrightarrow>
     (\<forall>i < length cands.
        (steps (cands ! i) = [] \<longleftrightarrow> i = 0) \<and>
        (steps (cands ! i) \<noteq> [] \<longrightarrow>
           (\<exists>j < i. parent_model (model (cands ! i)) = Some (name (model (cands ! j))) \<and>
                    (\<exists>s. steps (cands ! i) = steps (cands ! j) @ [s] \<and> \<not> is_backward s)) \<and>
           list_all (\<lambda>s. \<not> is_backward s) (steps (cands ! i))))"

definition provenance_inv :: "'r search_state \<Rightarrow> bool" where
  "provenance_inv st \<longleftrightarrow>
     provenance (all_candidates_so_far st) \<and> all_candidates_so_far st \<noteq> [] \<and>
     best_candidate_so_far st \<in> set (all_candidates_so_far st)"


section \<open>A concrete search\<close>

text \<open>
  A pool of three effects, two of them on the same parameter and covariate, a fit that
  always succeeds, and a ranking that always selects the first new candidate.
\<close>

definition ex_model :: "real Model" where
  "ex_model = \<lparr> oid = 0, name = ''pheno'', description = [], parent_model = None,
                modelfit_results = Some 730 \<rparr>"

definition ex_fit :: "real Model \<Rightarrow> real option" where
  "ex_fit m = Some 700"

definition pick_first :: "real Model \<Rightarrow> real Model list \<Rightarrow> real \<Rightarrow> real Model" where
  "pick_first parent ms a = (case ms of [] \<Rightarrow> parent | m # _ \<Rightarrow> m)"

definition pick_parent :: "real Model \<Rightarrow> real Model list \<Rightarrow> real \<Rightarrow> real Model" where
  "pick_parent parent ms a = parent"

text \<open>
  A ranking that selects the first new candidate against the start model (the model
  with no parent) and keeps the parent against every other model: the search it drives
  accepts a candidate in its first round and rejects the second round.
\<close>

definition pick_first_once :: "real Model \<Rightarrow> real Model list \<Rightarrow> real \<Rightarrow> real Model" where
  "pick_first_once parent ms a =
     (if parent_model parent = None then (case ms of [] \<Rightarrow> parent | m # _ \<Rightarrow> m) else parent)"

definition ex_effects :: "EffectLiteral list" where
  "ex_effects = [(''CL'', ''WGT'', ''exp'', ''*''), (''CL'', ''WGT'', ''pow'', ''*''),
                 (''V'', ''WGT'', ''exp'', ''*'')]"

text \<open>The state after the first round of that search (the initial one if there is none).\<close>

definition ex_state1 :: "real search_state" where
  "ex_state1 =
     (case search_round ex_fit pick_first (1 / 20) 1 (initial_state ex_effects ex_model) of
        Continue s \<Rightarrow> s
      | _ \<Rightarrow> initial_state ex_effects ex_model)"

text \<open>
  The final locals of the unbounded search over the concrete pool whose ranking always
  selects the first new candidate.
\<close>

definition ex_final :: "real search_state" where
  "ex_final =
     (case task_greedy_forward_search ex_fit pick_first ex_effects (1 / 20) (- 1) ex_model of
        Some (Inr s) \<Rightarrow> s
      | _ \<Rightarrow> initial_state ex_effects ex_model)"

text \<open>The number of steps with \<^verbatim>\<open>is_backward == False\<close>.\<close>

definition count_forward :: "Step list \<Rightarrow> nat" where
  "count_forward ss = length (filter (\<lambda>s. \<not> is_backward s) ss)"


text \<open>
  A search whose only candidate does not improve on its parent: the fit gives the
  objective function value of the start model again, the likelihood-ratio p-value of
  the candidate is 1, and the ranking keeps the parent. The renamed start model is a
  copy, under the name \<open>pheno\<close>, of a model that was called \<open>pheno-1\<close>.
\<close>

definition ex_fit_flat :: "real Model \<Rightarrow> real option" where
  "ex_fit_flat m = Some 730"

definition ex_p_value :: "real Model \<Rightarrow> real Model \<Rightarrow> real" where
  "ex_p_value parent child = 1"

definition ex_n_parameters :: "real Model \<Rightarrow> nat" where
  "ex_n_parameters m = (if parent_model m = Some ''pheno'' then 4 else 3)"

definition ex_database_path :: "real Model \<Rightarrow> string" where
  "ex_database_path m = ''.''"

definition ex_renamed_model :: "real Model" where
  "ex_renamed_model = ex_model\<lparr> parent_model := Some ''pheno-1'' \<rparr>"

definition candidates_of :: "(error + real search_state) option \<Rightarrow> real Candidate list" where
  "candidates_of r = (case r of Some (Inr st) \<Rightarrow> all_candidates_so_far st | _ \<Rightarrow> [])"

section \<open>Filtering the pool after a round\<close>

lemma search_round_Continue:
  assumes "search_round fit best_of_many p_forward step st = Continue st'"
  shows "steps (best_candidate_so_far st') \<noteq> [] \<and>
         candidate_effects st' =
           filter_effects (effect (last (steps (best_candidate_so_far st')))) (candidate_effects st)"
  using assms
  by (auto simp: search_round_def Let_def last_step_def split: if_splits sum.splits)

text \<open>
  C3: when a round ends with a winner, whose last step added the effect \<open>E\<close>, the pool
  of the next round is the old pool without the effects that have both the parameter
  and the covariate of \<open>E\<close>, in the old order: an effect of the old pool is dropped if
  and only if it agrees with \<open>E\<close> on parameter and covariate, whatever its functional
  form and operation are.
\<close>

theorem pool_filtered_by_parameter_and_covariate:
  assumes "search_round fit best_of_many p_forward step st = Continue st'"
    and "E = effect (last (steps (best_candidate_so_far st')))"
  shows "steps (best_candidate_so_far st') \<noteq> [] \<and>
         candidate_effects st' =
           filter (\<lambda>eff. \<not> (effect_0 eff = parameter E \<and> effect_1 eff = covariate E))
             (candidate_effects st) \<and>
         (\<forall>eff \<in> set (candidate_effects st).
            eff \<notin> set (candidate_effects st') \<longleftrightarrow>
              (effect_0 eff = parameter E \<and> effect_1 eff = covariate E))"
proof -
  from search_round_Continue [OF assms(1)] assms(2)
  have ne: "steps (best_candidate_so_far st') \<noteq> []"
    and eq: "candidate_effects st' = filter_effects E (candidate_effects st)"
    by simp_all
  have "filter_effects E (candidate_effects st) =
          filter (\<lambda>eff. \<not> (effect_0 eff = parameter E \<and> effect_1 eff = covariate E))
            (candidate_effects st)"
    unfolding filter_effects_def by (rule filter_cong) auto
  with ne eq show ?thesis by auto
qed


lemmas ex_defs = ex_model_def ex_fit_def pick_first_def pick_parent_def ex_effects_def

lemmas round_defs = search_round_def initial_state_def call_workflow_effects_addition_def
  Let_def new_candidates_def next_candidate_def last_step_def task_add_covariate_effect_def
  filter_effects_def effect_0_def effect_1_def AddEffect_of_def

lemma ex_round1:
  "search_round ex_fit pick_first (1 / 20) 1 (initial_state ex_effects ex_model) = Continue ex_state1"
  by (simp add: ex_state1_def ex_defs round_defs upt_rec [of 0] upt_rec [of 1] upt_rec [of 2]
        upt_rec [of "Suc 0"])

theorem pool_filtered_by_parameter_and_covariate_witness:
  "search_round ex_fit pick_first (1 / 20) 1 (initial_state ex_effects ex_model) = Continue ex_state1 \<and>
   effect (last (steps (best_candidate_so_far ex_state1))) = AddEffect ''CL'' ''WGT'' ''exp'' ''*'' \<and>
   candidate_effects (initial_state ex_effects ex_model) =
     [(''CL'', ''WGT'', ''exp'', ''*''), (''CL'', ''WGT'', ''pow'', ''*''), (''V'', ''WGT'', ''exp'', ''*'')] \<and>
   candidate_effects ex_state1 = [(''V'', ''WGT'', ''exp'', ''*'')]"
proof -
  have E: "AddEffect ''CL'' ''WGT'' ''exp'' ''*'' = effect (last (steps (best_candidate_so_far ex_state1)))"
    by code_simp
  have pool: "candidate_effects (initial_state ex_effects ex_model) =
     [(''CL'', ''WGT'', ''exp'', ''*''), (''CL'', ''WGT'', ''pow'', ''*''), (''V'', ''WGT'', ''exp'', ''*'')]"
    by (simp add: initial_state_def ex_effects_def)
  from pool_filtered_by_parameter_and_covariate [OF ex_round1 E]
  have "candidate_effects ex_state1 = [(''V'', ''WGT'', ''exp'', ''*'')]"
    by (simp add: pool effect_0_def effect_1_def)
  with ex_round1 E pool show ?thesis by simp
qed

section \<open>Termination of the search\<close>

lemma find_append_cases:
  "List.find P (xs @ ys) = (case List.find P xs of None \<Rightarrow> List.find P ys | Some x \<Rightarrow> Some x)"
  by (induction xs) auto

lemma length_batch [simp]: "length (call_workflow_effects_addition fit o0 m effs) = length effs"
  by (simp add: call_workflow_effects_addition_def)

lemma oid_batch:
  assumes "m' \<in> set (call_workflow_effects_addition fit o0 m effs)"
  shows "o0 \<le> oid m' \<and> oid m' < o0 + length effs"
proof -
  from assms obtain k eff where "(k, eff) \<in> set (zip [0 ..< length effs] effs)"
    and m': "m' = (task_add_covariate_effect (o0 + k) m eff (Suc k))\<lparr> modelfit_results :=
                    fit (task_add_covariate_effect (o0 + k) m eff (Suc k)) \<rparr>"
    by (auto simp: call_workflow_effects_addition_def Let_def)
  then have "k < length effs" by (auto dest: set_zip_leftD)
  with m' show ?thesis by (simp add: task_add_covariate_effect_def)
qed

lemma new_candidates_elem:
  assumes "c \<in> set (new_candidates p best ms effs)"
  shows "model c \<in> set ms \<and> (\<exists>eff \<in> set effs. steps c = steps best @ [ForwardStep p (AddEffect_of eff)])"
  using assms by (auto simp: new_candidates_def dest: set_zip_leftD set_zip_rightD)

lemma new_candidates_cover:
  assumes "length ms = length effs" and "m' \<in> set ms"
  shows "\<exists>c \<in> set (new_candidates p best ms effs). model c = m'"
proof -
  from assms(2) obtain i where i: "i < length ms" "ms ! i = m'" by (auto simp: in_set_conv_nth)
  with assms(1) have "(m', effs ! i) \<in> set (zip ms effs)" by (auto simp: set_zip)
  then have "\<lparr> model = m', steps = steps best @ [ForwardStep p (AddEffect_of (effs ! i))] \<rparr>
               \<in> set (new_candidates p best ms effs)"
    unfolding new_candidates_def by force
  then show ?thesis by force
qed

lemma filter_effects_shrinks:
  assumes "eff \<in> set effs"
  shows "length (filter_effects (AddEffect_of eff) effs) < length effs"
  unfolding filter_effects_def
  by (rule length_filter_less [OF assms])
     (simp add: AddEffect_of_def effect_0_def effect_1_def split: prod.splits)

lemma search_round_cases:
  assumes inv: "search_inv st" and con: "best_of_many_contract best_of_many"
    and ne: "candidate_effects st \<noteq> []"
  shows "(\<exists>st'. search_round fit best_of_many p step st = Return st' \<and>
                length (calls st') = Suc (length (calls st))) \<or>
         (\<exists>st'. search_round fit best_of_many p step st = Continue st' \<and> search_inv st' \<and>
                length (candidate_effects st') < length (candidate_effects st) \<and>
                length (calls st') = Suc (length (calls st)))"
proof -
  define parent where "parent = model (best_candidate_so_far st)"
  define ms where "ms = call_workflow_effects_addition fit (next_oid st) parent (candidate_effects st)"
  define new where "new = new_candidates p (best_candidate_so_far st) ms (candidate_effects st)"
  define best where "best = best_of_many parent ms p"
  show ?thesis
  proof (cases "oid best = oid parent")
    case True
    then show ?thesis
      by (simp add: search_round_def Let_def best_def ms_def parent_def)
  next
    case False
    with con have in_ms: "best \<in> set ms"
      unfolding best_of_many_contract_def best_def by metis
    then have fresh: "next_oid st \<le> oid best"
      unfolding ms_def by (auto dest: oid_batch)
    have old: "List.find (\<lambda>c. oid (model c) = oid best) (all_candidates_so_far st) = None"
      using inv fresh by (auto simp: search_inv_def find_None_iff)
    have len: "length ms = length (candidate_effects st)" by (simp add: ms_def)
    from new_candidates_cover [OF len in_ms] obtain c0 where
      "c0 \<in> set new" "model c0 = best" unfolding new_def by blast
    then have "List.find (\<lambda>c. oid (model c) = oid best) new \<noteq> None"
      by (auto simp: find_None_iff)
    then obtain c where c: "List.find (\<lambda>c. oid (model c) = oid best) new = Some c" by blast
    then have c_new: "c \<in> set new" and c_oid: "oid (model c) = oid best"
      by (auto simp: find_Some_iff)
    from new_candidates_elem [OF c_new [unfolded new_def]] obtain eff where
      eff: "eff \<in> set (candidate_effects st)"
      and st_c: "steps c = steps (best_candidate_so_far st) @ [ForwardStep p (AddEffect_of eff)]"
      and mc: "model c \<in> set ms"
      by blast
    have nc: "next_candidate best (all_candidates_so_far st @ new) = Inr c"
      by (simp add: next_candidate_def find_append_cases old c)
    have ls: "last_step (steps c) = Inr (ForwardStep p (AddEffect_of eff))"
      by (simp add: last_step_def st_c)
    define st' where "st' = st\<lparr> next_oid := next_oid st + length ms,
        calls := calls st @ [(NAME_WF @ ''-effects_addition-'' @ str_nat step, ms)],
        all_candidates_so_far := all_candidates_so_far st @ new,
        best_candidate_so_far := c,
        candidate_effects := filter_effects (AddEffect_of eff) (candidate_effects st) \<rparr>"
    have round: "search_round fit best_of_many p step st = Continue st'"
      using False nc ls
      by (simp add: search_round_def Let_def best_def [symmetric] ms_def [symmetric]
            parent_def [symmetric] new_def [symmetric] st'_def)
    have "\<And>c'. c' \<in> set new \<Longrightarrow> oid (model c') < next_oid st + length ms"
    proof -
      fix c' assume "c' \<in> set new"
      then have "model c' \<in> set ms" unfolding new_def by (auto dest: new_candidates_elem)
      then show "oid (model c') < next_oid st + length ms"
        unfolding ms_def by (auto dest: oid_batch)
    qed
    with inv c_new have inv': "search_inv st'"
      by (auto simp: search_inv_def st'_def)
    have "length (candidate_effects st') < length (candidate_effects st)"
      using filter_effects_shrinks [OF eff] by (simp add: st'_def)
    moreover have "length (calls st') = Suc (length (calls st))" by (simp add: st'_def)
    ultimately show ?thesis using round inv' by blast
  qed
qed

lemma greedy_loop_terminates:
  assumes "best_of_many_contract best_of_many" and "search_inv st"
  shows "\<exists>st'. greedy_loop fit best_of_many p remaining step st = Some (Inr st') \<and>
               length (calls st') \<le> length (calls st) + length (candidate_effects st) \<and>
               (\<forall>n. remaining = Some n \<longrightarrow> length (calls st') \<le> length (calls st) + n)"
  using assms(2)
proof (induction "length (candidate_effects st)" arbitrary: st remaining step rule: less_induct)
  case less
  show ?case
  proof (cases "remaining = Some 0 \<or> candidate_effects st = []")
    case True
    then show ?thesis by (subst greedy_loop.simps) auto
  next
    case False
    then have rem: "remaining \<noteq> Some 0" and ne: "candidate_effects st \<noteq> []" by auto
    from search_round_cases [OF less.prems assms(1) ne, where fit = fit and p = p and step = step]
    show ?thesis
    proof (elim disjE exE conjE)
      fix st'
      assume r: "search_round fit best_of_many p step st = Return st'"
        and l: "length (calls st') = Suc (length (calls st))"
      have "greedy_loop fit best_of_many p remaining step st = Some (Inr st')"
        using rem ne r by (subst greedy_loop.simps) simp
      moreover have "Suc 0 \<le> length (candidate_effects st)"
        using ne by (cases "candidate_effects st") simp_all
      ultimately show ?thesis using l rem by (cases remaining) auto
    next
      fix st'
      assume r: "search_round fit best_of_many p step st = Continue st'"
        and inv': "search_inv st'"
        and sh: "length (candidate_effects st') < length (candidate_effects st)"
        and l: "length (calls st') = Suc (length (calls st))"
      from less.hyps [OF sh inv', of "map_option (\<lambda>n. n - 1) remaining" "Suc step"]
      obtain st'' where
        g: "greedy_loop fit best_of_many p (map_option (\<lambda>n. n - 1) remaining) (Suc step) st' = Some (Inr st'')"
        and b1: "length (calls st'') \<le> length (calls st') + length (candidate_effects st')"
        and b2: "\<forall>n. map_option (\<lambda>n. n - 1) remaining = Some n \<longrightarrow> length (calls st'') \<le> length (calls st') + n"
        by blast
      have "greedy_loop fit best_of_many p remaining step st = Some (Inr st'')"
        using rem ne r g by (subst greedy_loop.simps) simp
      moreover have "length (calls st'') \<le> length (calls st) + length (candidate_effects st)"
        using b1 sh l by simp
      moreover have "\<forall>n. remaining = Some n \<longrightarrow> length (calls st'') \<le> length (calls st) + n"
        using b2 l rem by (cases remaining) auto
      ultimately show ?thesis by blast
    qed
  qed
qed

lemma search_inv_initial: "search_inv (initial_state effs m)"
  by (simp add: search_inv_def initial_state_def)

lemma reachable_inv:
  assumes "best_of_many_contract best_of_many"
  shows "reachable fit best_of_many p effs m st \<Longrightarrow> search_inv st"
proof (induction rule: reachable.induct)
  case start
  show ?case by (rule search_inv_initial)
next
  case (round st step st')
  from search_round_cases [OF round.IH assms round.hyps(2), where fit = fit and p = p and step = step]
    round.hyps(3)
  show ?case by auto
qed

text \<open>
  C1: if the ranking returns the parent or one of the candidates it is given, the search
  returns, and the number of rounds (workflows submitted) is at most the size of the
  pool, for every \<^verbatim>\<open>max_steps\<close>, the negative ones included, and at most
  \<open>min (length effs) max_steps\<close> when \<^verbatim>\<open>max_steps\<close> is not negative. Whenever a round
  that the loop can reach selects a winner, the pool of the next round is strictly
  smaller.
\<close>

theorem search_terminates:
  assumes "best_of_many_contract best_of_many"
  shows "(\<exists>st'. task_greedy_forward_search fit best_of_many effs p max_steps m = Some (Inr st') \<and>
               length (calls st') \<le> length effs \<and>
               (0 \<le> max_steps \<longrightarrow> length (calls st') \<le> min (length effs) (nat max_steps))) \<and>
         (\<forall>st step st'. reachable fit best_of_many p effs m st \<and> candidate_effects st \<noteq> [] \<and>
              search_round fit best_of_many p step st = Continue st' \<longrightarrow>
              length (candidate_effects st') < length (candidate_effects st))"
proof
  from greedy_loop_terminates [OF assms search_inv_initial,
      of fit p "if max_steps \<ge> 0 then Some (nat max_steps) else None" 1 effs m]
  show "\<exists>st'. task_greedy_forward_search fit best_of_many effs p max_steps m = Some (Inr st') \<and>
               length (calls st') \<le> length effs \<and>
               (0 \<le> max_steps \<longrightarrow> length (calls st') \<le> min (length effs) (nat max_steps))"
    unfolding task_greedy_forward_search_def by (auto simp: initial_state_def)
next
  show "\<forall>st step st'. reachable fit best_of_many p effs m st \<and> candidate_effects st \<noteq> [] \<and>
              search_round fit best_of_many p step st = Continue st' \<longrightarrow>
              length (candidate_effects st') < length (candidate_effects st)"
  proof (intro allI impI, elim conjE)
    fix st step st'
    assume "reachable fit best_of_many p effs m st" "candidate_effects st \<noteq> []"
      "search_round fit best_of_many p step st = Continue st'"
    with search_round_cases [OF reachable_inv [OF assms] assms, where fit = fit and p = p and step = step
        and st = st and fit1 = fit and p1 = p and effs1 = effs and m1 = m]
    show "length (candidate_effects st') < length (candidate_effects st)" by auto
  qed
qed


lemma greedy_loop_invariant:
  assumes run: "greedy_loop fit best_of_many p remaining step st = Some (Inr st')"
    and init: "I st"
    and cont: "\<And>s k s'. I s \<Longrightarrow> candidate_effects s \<noteq> [] \<Longrightarrow>
                 search_round fit best_of_many p k s = Continue s' \<Longrightarrow> I s'"
    and ret: "\<And>s k s'. I s \<Longrightarrow> candidate_effects s \<noteq> [] \<Longrightarrow>
                 search_round fit best_of_many p k s = Return s' \<Longrightarrow> I s'"
  shows "I st'"
proof -
  have "f = fit \<longrightarrow> b = best_of_many \<longrightarrow> q = p \<longrightarrow> I s \<longrightarrow> (\<forall>s'. r = Inr s' \<longrightarrow> I s')"
    if "greedy_loop f b q rem k s = Some r" for f b q rem k s r
  proof (rule greedy_loop.raw_induct [where P = "\<lambda>f b q rem k s r.
        f = fit \<longrightarrow> b = best_of_many \<longrightarrow> q = p \<longrightarrow> I s \<longrightarrow> (\<forall>s'. r = Inr s' \<longrightarrow> I s')", OF _ that],
      goal_cases)
    case (1 loop f b q rem k s r)
    show ?case
    proof (intro impI allI)
      fix s'
      assume eqs: "f = fit" "b = best_of_many" "q = p" and I: "I s" and r: "r = Inr s'"
      show "I s'"
      proof (cases "rem = Some 0 \<or> candidate_effects s = []")
        case True
        with 1(2) r I show ?thesis by (auto split: if_splits)
      next
        case False
        then have ne: "candidate_effects s \<noteq> []" and rem: "rem \<noteq> Some 0" by auto
        show ?thesis
        proof (cases "search_round fit best_of_many p k s")
          case (Continue s1)
          with 1(2) False eqs
          have "loop fit best_of_many p (map_option (\<lambda>n. n - 1) rem) (Suc k) s1 = Some r"
            by simp
          from 1(1) [OF this] cont [OF I ne Continue] r show ?thesis by simp
        next
          case (Return s1)
          with 1(2) False eqs r have "s1 = s'" by simp
          with ret [OF I ne Return] show ?thesis by simp
        next
          case (Raise e)
          with 1(2) False eqs r show ?thesis by simp
        qed
      qed
    qed
  qed
  from this [OF run] init show ?thesis by simp
qed



lemma pick_first_contract: "best_of_many_contract pick_first"
  by (auto simp: best_of_many_contract_def pick_first_def split: list.splits)

lemma pick_parent_contract: "best_of_many_contract pick_parent"
  by (simp add: best_of_many_contract_def pick_parent_def)

theorem search_terminates_witness:
  "best_of_many_contract pick_first \<and>
   (\<exists>st'. task_greedy_forward_search ex_fit pick_first ex_effects (1 / 20) 1 ex_model = Some (Inr st') \<and>
          length (calls st') \<le> min (length ex_effects) (nat 1)) \<and>
   reachable ex_fit pick_first (1 / 20) ex_effects ex_model (initial_state ex_effects ex_model) \<and>
   candidate_effects (initial_state ex_effects ex_model) \<noteq> [] \<and>
   search_round ex_fit pick_first (1 / 20) 1 (initial_state ex_effects ex_model) = Continue ex_state1 \<and>
   length (candidate_effects ex_state1) < length (candidate_effects (initial_state ex_effects ex_model))"
proof -
  have ne: "candidate_effects (initial_state ex_effects ex_model) \<noteq> []"
    by (simp add: initial_state_def ex_effects_def)
  have re: "reachable ex_fit pick_first (1 / 20) ex_effects ex_model (initial_state ex_effects ex_model)"
    by (rule reachable.start)
  from search_terminates [OF pick_first_contract, of ex_fit ex_effects "1 / 20" 1 ex_model]
  have a: "\<exists>st'. task_greedy_forward_search ex_fit pick_first ex_effects (1 / 20) 1 ex_model = Some (Inr st') \<and>
          length (calls st') \<le> min (length ex_effects) (nat 1)"
    and b: "\<forall>st step st'. reachable ex_fit pick_first (1 / 20) ex_effects ex_model st \<and>
              candidate_effects st \<noteq> [] \<and>
              search_round ex_fit pick_first (1 / 20) step st = Continue st' \<longrightarrow>
              length (candidate_effects st') < length (candidate_effects st)"
    by auto
  from b re ne ex_round1
  have "length (candidate_effects ex_state1) < length (candidate_effects (initial_state ex_effects ex_model))"
    by blast
  with pick_first_contract a re ne ex_round1 show ?thesis by blast
qed

lemma search_round_Return_calls:
  assumes "search_round fit best_of_many p step st = Return st'"
  shows "all_candidates_so_far st' =
     all_candidates_so_far st @
       new_candidates p (best_candidate_so_far st) (round_batch fit st) (candidate_effects st) \<and>
   calls st' = calls st @ [(NAME_WF @ ''-effects_addition-'' @ str_nat step, round_batch fit st)]"
  using assms
  by (auto simp: search_round_def Let_def round_batch_def split: if_splits sum.splits)

lemma search_round_Continue_calls:
  assumes "search_round fit best_of_many p step st = Continue st'"
  shows "all_candidates_so_far st' =
     all_candidates_so_far st @
       new_candidates p (best_candidate_so_far st) (round_batch fit st) (candidate_effects st) \<and>
   calls st' = calls st @ [(NAME_WF @ ''-effects_addition-'' @ str_nat step, round_batch fit st)]"
  using assms
  by (auto simp: search_round_def Let_def round_batch_def split: if_splits sum.splits)

lemma search_round_calls:
  "search_round fit best_of_many p step st = Return st' \<or>
   search_round fit best_of_many p step st = Continue st' \<Longrightarrow>
   all_candidates_so_far st' =
     all_candidates_so_far st @
       new_candidates p (best_candidate_so_far st) (round_batch fit st) (candidate_effects st) \<and>
   calls st' = calls st @ [(NAME_WF @ ''-effects_addition-'' @ str_nat step, round_batch fit st)]"
  by (erule disjE) (rule search_round_Return_calls, assumption, rule search_round_Continue_calls, assumption)

lemma map_model_new_candidates:
  assumes "length ms = length effs"
  shows "map model (new_candidates p best ms effs) = ms"
proof -
  have "map model (new_candidates p best ms effs) = map fst (zip ms effs)"
    by (auto simp: new_candidates_def)
  with assms show ?thesis by simp
qed

lemma full_history_round:
  assumes "full_history m st"
    and "search_round fit best_of_many p step st = Return st' \<or>
         search_round fit best_of_many p step st = Continue st'"
  shows "full_history m st'"
proof -
  from search_round_calls [OF assms(2)]
  have a: "all_candidates_so_far st' =
     all_candidates_so_far st @
       new_candidates p (best_candidate_so_far st) (round_batch fit st) (candidate_effects st)"
    and c: "calls st' = calls st @ [(NAME_WF @ ''-effects_addition-'' @ str_nat step, round_batch fit st)]"
    by simp_all
  have "map model (new_candidates p (best_candidate_so_far st) (round_batch fit st) (candidate_effects st))
          = round_batch fit st"
    by (rule map_model_new_candidates) (simp add: round_batch_def)
  with assms(1) a c show ?thesis
    by (auto simp: full_history_def split: list.splits)
qed

lemma full_history_initial: "full_history m (initial_state effs m)"
  by (simp add: full_history_def initial_state_def)

lemma loop_reaches_same_result:
  assumes "loop_reaches fit best_of_many p remaining0 step0 st0 remaining step st"
  shows "greedy_loop fit best_of_many p remaining0 step0 st0 =
         greedy_loop fit best_of_many p remaining step st"
  using assms
proof (induction rule: loop_reaches.induct)
  case first
  show ?case by simp
next
  case (next_round remaining step st st')
  have "greedy_loop fit best_of_many p remaining step st =
        greedy_loop fit best_of_many p (map_option (\<lambda>n. n - 1) remaining) (Suc step) st'"
    using next_round.hyps(2,3,4) by (subst greedy_loop.simps) simp
  with next_round.IH show ?case by simp
qed

lemma loop_reaches_full_history:
  assumes "loop_reaches fit best_of_many p remaining0 step0 st0 remaining step st"
    and "full_history m st0"
  shows "full_history m st"
  using assms
proof (induction rule: loop_reaches.induct)
  case first
  then show ?case by simp
next
  case (next_round remaining step st st')
  then show ?case by (blast intro: full_history_round)
qed

text \<open>
  C2: take any iteration that a run of \<^verbatim>\<open>task_greedy_forward_search\<close> begins with the
  iterator not exhausted and the pool not empty. If the ranking, given the parent model
  and the models of the round's workflow at \<open>p_forward\<close>, returns the parent model itself,
  then the search returns, and it returns in this iteration: the workflow of this round
  is the last one submitted, and the returned list is the list so far followed by the
  candidates of this round. The returned list is the full history: its first element is
  the zero-step candidate of the input model, and the rest holds one candidate for every
  model returned in every round, the rejected round included.
\<close>

theorem parent_selected_returns_full_history:
  assumes "loop_reaches fit best_of_many p (iterator_of max_steps) 1 (initial_state effs m)
             remaining step st"
    and "remaining \<noteq> Some 0" and "candidate_effects st \<noteq> []"
    and "oid (best_of_many (model (best_candidate_so_far st)) (round_batch fit st) p)
           = oid (model (best_candidate_so_far st))"
  shows "\<exists>final. task_greedy_forward_search fit best_of_many effs p max_steps m = Some (Inr final) \<and>
           all_candidates_so_far final =
             all_candidates_so_far st @
               new_candidates p (best_candidate_so_far st) (round_batch fit st) (candidate_effects st) \<and>
           calls final = calls st @ [(NAME_WF @ ''-effects_addition-'' @ str_nat step, round_batch fit st)] \<and>
           hd (all_candidates_so_far final) = \<lparr> model = m, steps = [] \<rparr> \<and>
           map model (tl (all_candidates_so_far final)) = concat (map snd (calls final))"
proof -
  from assms(4) obtain final where r: "search_round fit best_of_many p step st = Return final"
    by (simp add: search_round_def Let_def round_batch_def)
  with assms(2,3) have "greedy_loop fit best_of_many p remaining step st = Some (Inr final)"
    by (subst greedy_loop.simps) simp
  with loop_reaches_same_result [OF assms(1)]
  have run: "task_greedy_forward_search fit best_of_many effs p max_steps m = Some (Inr final)"
    by (simp add: task_greedy_forward_search_def iterator_of_def)
  have "full_history m st"
    by (rule loop_reaches_full_history [OF assms(1) full_history_initial])
  then have "full_history m final"
    using r by (blast intro: full_history_round)
  then have h: "hd (all_candidates_so_far final) = \<lparr> model = m, steps = [] \<rparr> \<and>
           map model (tl (all_candidates_so_far final)) = concat (map snd (calls final))"
    by (auto simp: full_history_def split: list.splits)
  from search_round_Return_calls [OF r] run h show ?thesis by blast
qed

lemma ex_round1_once:
  "search_round ex_fit pick_first_once (1 / 20) 1 (initial_state ex_effects ex_model) = Continue ex_state1"
  by (simp add: ex_state1_def ex_defs pick_first_once_def round_defs upt_rec [of 0] upt_rec [of 1]
        upt_rec [of 2] upt_rec [of "Suc 0"])

lemma ex_final_run:
  "task_greedy_forward_search ex_fit pick_first ex_effects (1 / 20) (- 1) ex_model = Some (Inr ex_final)"
  by code_simp

theorem parent_selected_returns_full_history_witness:
  "loop_reaches ex_fit pick_first_once (1 / 20) (iterator_of (- 1)) 1 (initial_state ex_effects ex_model)
     None 2 ex_state1 \<and>
   candidate_effects ex_state1 = [(''V'', ''WGT'', ''exp'', ''*'')] \<and>
   oid (pick_first_once (model (best_candidate_so_far ex_state1)) (round_batch ex_fit ex_state1) (1 / 20))
     = oid (model (best_candidate_so_far ex_state1)) \<and>
   (\<exists>final. task_greedy_forward_search ex_fit pick_first_once ex_effects (1 / 20) (- 1) ex_model
              = Some (Inr final) \<and>
            map (\<lambda>c. name (model c)) (all_candidates_so_far final) =
              [''pheno'', ''pheno-1'', ''pheno-2'', ''pheno-3'', ''pheno-1-1''] \<and>
            map (\<lambda>c. length (steps c)) (all_candidates_so_far final) = [0, 1, 1, 1, 2] \<and>
            map fst (calls final) =
              [''covariates-effects_addition-1'', ''covariates-effects_addition-2''] \<and>
            map (map name \<circ> snd) (calls final) =
              [[''pheno-1'', ''pheno-2'', ''pheno-3''], [''pheno-1-1'']])"
proof -
  have it: "iterator_of (- 1) = None"
    by (simp add: iterator_of_def)
  have ne0: "candidate_effects (initial_state ex_effects ex_model) \<noteq> []"
    by (simp add: initial_state_def ex_effects_def)
  have "loop_reaches ex_fit pick_first_once (1 / 20) None 1 (initial_state ex_effects ex_model)
          (map_option (\<lambda>n. n - 1) None) (Suc 1) ex_state1"
    by (rule loop_reaches.next_round [OF loop_reaches.first _ ne0 ex_round1_once]) simp
  then have reach: "loop_reaches ex_fit pick_first_once (1 / 20) (iterator_of (- 1)) 1
      (initial_state ex_effects ex_model) None 2 ex_state1"
    by (simp add: it numeral_2_eq_2)
  have pool: "candidate_effects ex_state1 = [(''V'', ''WGT'', ''exp'', ''*'')]"
    by code_simp
  have par: "oid (pick_first_once (model (best_candidate_so_far ex_state1)) (round_batch ex_fit ex_state1) (1 / 20))
     = oid (model (best_candidate_so_far ex_state1))"
    by code_simp
  have names: "map (\<lambda>c. name (model c))
      (all_candidates_so_far ex_state1 @
         new_candidates (1 / 20) (best_candidate_so_far ex_state1) (round_batch ex_fit ex_state1)
           (candidate_effects ex_state1)) =
      [''pheno'', ''pheno-1'', ''pheno-2'', ''pheno-3'', ''pheno-1-1'']"
    by code_simp
  have lens: "map (\<lambda>c. length (steps c))
      (all_candidates_so_far ex_state1 @
         new_candidates (1 / 20) (best_candidate_so_far ex_state1) (round_batch ex_fit ex_state1)
           (candidate_effects ex_state1)) = [0, 1, 1, 1, 2]"
    by code_simp
  have cs: "map fst (calls ex_state1 @
       [(NAME_WF @ ''-effects_addition-'' @ str_nat 2, round_batch ex_fit ex_state1)]) =
       [''covariates-effects_addition-1'', ''covariates-effects_addition-2'']"
    by code_simp
  have ms: "map (map name \<circ> snd) (calls ex_state1 @
       [(NAME_WF @ ''-effects_addition-'' @ str_nat 2, round_batch ex_fit ex_state1)]) =
       [[''pheno-1'', ''pheno-2'', ''pheno-3''], [''pheno-1-1'']]"
    by code_simp
  have ne: "candidate_effects ex_state1 \<noteq> []" and rem: "(None :: nat option) \<noteq> Some 0"
    by (simp_all add: pool)
  from parent_selected_returns_full_history [OF reach rem ne par]
  obtain final where
    "task_greedy_forward_search ex_fit pick_first_once ex_effects (1 / 20) (- 1) ex_model = Some (Inr final)"
    "all_candidates_so_far final =
       all_candidates_so_far ex_state1 @
         new_candidates (1 / 20) (best_candidate_so_far ex_state1) (round_batch ex_fit ex_state1)
           (candidate_effects ex_state1)"
    "calls final = calls ex_state1 @
       [(NAME_WF @ ''-effects_addition-'' @ str_nat 2, round_batch ex_fit ex_state1)]"
    by blast
  with names lens cs ms have
    "\<exists>final. task_greedy_forward_search ex_fit pick_first_once ex_effects (1 / 20) (- 1) ex_model
              = Some (Inr final) \<and>
            map (\<lambda>c. name (model c)) (all_candidates_so_far final) =
              [''pheno'', ''pheno-1'', ''pheno-2'', ''pheno-3'', ''pheno-1-1''] \<and>
            map (\<lambda>c. length (steps c)) (all_candidates_so_far final) = [0, 1, 1, 1, 2] \<and>
            map fst (calls final) =
              [''covariates-effects_addition-1'', ''covariates-effects_addition-2''] \<and>
            map (map name \<circ> snd) (calls final) =
              [[''pheno-1'', ''pheno-2'', ''pheno-3''], [''pheno-1-1'']]"
    by auto
  with reach pool par show ?thesis by blast
qed

section \<open>Provenance of the candidates\<close>

lemma parent_batch:
  assumes "m' \<in> set (call_workflow_effects_addition fit o0 m effs)"
  shows "parent_model m' = Some (name m)"
  using assms
  by (auto simp: call_workflow_effects_addition_def Let_def task_add_covariate_effect_def)

lemma provenance_all_forward:
  assumes "provenance cands" and "c \<in> set cands"
  shows "list_all (\<lambda>s. \<not> is_backward s) (steps c)"
proof -
  from assms(2) obtain i where i: "i < length cands" "cands ! i = c"
    by (auto simp: in_set_conv_nth)
  show ?thesis
  proof (cases "steps c = []")
    case True
    then show ?thesis by simp
  next
    case False
    with assms(1) i show ?thesis unfolding provenance_def by blast
  qed
qed

lemma provenance_append:
  assumes prov: "provenance cands" and ne: "cands \<noteq> []" and best: "best \<in> set cands"
    and new: "\<And>c. c \<in> set new \<Longrightarrow>
                parent_model (model c) = Some (name (model best)) \<and>
                (\<exists>s. steps c = steps best @ [s] \<and> \<not> is_backward s)"
  shows "provenance (cands @ new)"
  unfolding provenance_def
proof (intro allI impI)
  fix i assume i: "i < length (cands @ new)"
  from best obtain j where j: "j < length cands" "cands ! j = best"
    by (auto simp: in_set_conv_nth)
  have fw: "list_all (\<lambda>s. \<not> is_backward s) (steps best)"
    by (rule provenance_all_forward [OF prov best])
  show "(steps ((cands @ new) ! i) = [] \<longleftrightarrow> i = 0) \<and>
        (steps ((cands @ new) ! i) \<noteq> [] \<longrightarrow>
           (\<exists>j < i. parent_model (model ((cands @ new) ! i)) = Some (name (model ((cands @ new) ! j))) \<and>
                    (\<exists>s. steps ((cands @ new) ! i) = steps ((cands @ new) ! j) @ [s] \<and> \<not> is_backward s)) \<and>
           list_all (\<lambda>s. \<not> is_backward s) (steps ((cands @ new) ! i)))"
  proof (cases "i < length cands")
    case True
    then have eq: "(cands @ new) ! i = cands ! i" by (simp add: nth_append)
    from prov True have
      a: "steps (cands ! i) = [] \<longleftrightarrow> i = 0"
      and b: "steps (cands ! i) \<noteq> [] \<longrightarrow>
           (\<exists>j < i. parent_model (model (cands ! i)) = Some (name (model (cands ! j))) \<and>
                    (\<exists>s. steps (cands ! i) = steps (cands ! j) @ [s] \<and> \<not> is_backward s)) \<and>
           list_all (\<lambda>s. \<not> is_backward s) (steps (cands ! i))"
      unfolding provenance_def by blast+
    have "\<exists>j < i. parent_model (model (cands ! i)) = Some (name (model ((cands @ new) ! j))) \<and>
                    (\<exists>s. steps (cands ! i) = steps ((cands @ new) ! j) @ [s] \<and> \<not> is_backward s)"
      if "steps (cands ! i) \<noteq> []"
    proof -
      from b that obtain j' where j': "j' < i"
        "parent_model (model (cands ! i)) = Some (name (model (cands ! j')))"
        "\<exists>s. steps (cands ! i) = steps (cands ! j') @ [s] \<and> \<not> is_backward s"
        by blast
      with True have "(cands @ new) ! j' = cands ! j'" by (simp add: nth_append)
      with j' show ?thesis by auto
    qed
    with a b show ?thesis unfolding eq by blast
  next
    case False
    with i have c: "(cands @ new) ! i = new ! (i - length cands)" "i - length cands < length new"
      by (simp_all add: nth_append)
    then have "(cands @ new) ! i \<in> set new" by simp
    from new [OF this] obtain s where
      p: "parent_model (model ((cands @ new) ! i)) = Some (name (model best))"
      and s: "steps ((cands @ new) ! i) = steps best @ [s]" "\<not> is_backward s"
      by blast
    from ne have "0 < length cands" by simp
    with False have i0: "i \<noteq> 0" by arith
    from j False have ji: "j < i" and jeq: "(cands @ new) ! j = best" by (simp_all add: nth_append)
    from s fw have "list_all (\<lambda>s. \<not> is_backward s) (steps ((cands @ new) ! i))" by simp
    with p s i0 ji jeq show ?thesis by auto
  qed
qed

lemma next_candidate_mem:
  assumes "next_candidate b cands = Inr c"
  shows "c \<in> set cands"
proof -
  from assms have "List.find (\<lambda>c. oid (model c) = oid b) cands = Some c"
    by (simp add: next_candidate_def split: option.splits)
  then obtain i where "i < length cands" "c = cands ! i"
    unfolding find_Some_iff by blast
  then show ?thesis by simp
qed

lemma provenance_inv_round:
  assumes inv: "provenance_inv st"
    and r: "search_round fit best_of_many p step st = Return st' \<or>
            search_round fit best_of_many p step st = Continue st'"
  shows "provenance_inv st'"
proof -
  let ?new = "new_candidates p (best_candidate_so_far st) (round_batch fit st) (candidate_effects st)"
  from search_round_calls [OF r]
  have all': "all_candidates_so_far st' = all_candidates_so_far st @ ?new" by simp
  have new: "parent_model (model c) = Some (name (model (best_candidate_so_far st))) \<and>
        (\<exists>s. steps c = steps (best_candidate_so_far st) @ [s] \<and> \<not> is_backward s)"
    if "c \<in> set ?new" for c
  proof -
    from new_candidates_elem [OF that] obtain eff where
      m: "model c \<in> set (round_batch fit st)"
      and s: "steps c = steps (best_candidate_so_far st) @ [ForwardStep p (AddEffect_of eff)]"
      by blast
    from m have "parent_model (model c) = Some (name (model (best_candidate_so_far st)))"
      unfolding round_batch_def by (rule parent_batch)
    with s show ?thesis by simp
  qed
  from inv have prov: "provenance (all_candidates_so_far st)"
    and ne: "all_candidates_so_far st \<noteq> []"
    and best: "best_candidate_so_far st \<in> set (all_candidates_so_far st)"
    by (simp_all add: provenance_inv_def)
  have p': "provenance (all_candidates_so_far st')"
    unfolding all' by (rule provenance_append [OF prov ne best new])
  have b': "best_candidate_so_far st' \<in> set (all_candidates_so_far st')"
    using r
  proof
    assume "search_round fit best_of_many p step st = Return st'"
    then have "best_candidate_so_far st' = best_candidate_so_far st"
      by (auto simp: search_round_def Let_def split: if_splits sum.splits)
    with best all' show ?thesis by simp
  next
    assume "search_round fit best_of_many p step st = Continue st'"
    then have "\<exists>b. next_candidate b (all_candidates_so_far st') = Inr (best_candidate_so_far st')"
      by (auto simp: search_round_def Let_def split: if_splits sum.splits)
    then show ?thesis by (auto dest: next_candidate_mem)
  qed
  from p' b' ne all' show ?thesis by (simp add: provenance_inv_def)
qed

lemma provenance_inv_initial: "provenance_inv (initial_state effs m)"
  by (simp add: provenance_inv_def provenance_def initial_state_def)

text \<open>
  C4, as amended: in the list the search returns, a candidate has no steps if and only
  if it is the first one, the unmodified starting candidate; every candidate with steps
  names as \<^verbatim>\<open>parent_model\<close> the model of an earlier candidate of the list and has the
  steps of that candidate followed by exactly one more step, which is forward; and all
  of its steps are forward (\<^verbatim>\<open>is_backward == False\<close>), as many as rounds led to it.
\<close>

theorem candidates_provenance:
  assumes "task_greedy_forward_search fit best_of_many effs p max_steps m = Some (Inr final)"
    and "cands = all_candidates_so_far final"
  shows "\<forall>i < length cands.
        (steps (cands ! i) = [] \<longleftrightarrow> i = 0) \<and>
        (steps (cands ! i) \<noteq> [] \<longrightarrow>
           (\<exists>j < i. parent_model (model (cands ! i)) = Some (name (model (cands ! j))) \<and>
                    (\<exists>s. steps (cands ! i) = steps (cands ! j) @ [s] \<and> \<not> is_backward s)) \<and>
           list_all (\<lambda>s. \<not> is_backward s) (steps (cands ! i)))"
proof -
  from assms(1) have run: "greedy_loop fit best_of_many p (if max_steps \<ge> 0 then Some (nat max_steps) else None) 1
      (initial_state effs m) = Some (Inr final)"
    by (simp add: task_greedy_forward_search_def)
  have "provenance_inv final"
    by (rule greedy_loop_invariant [OF run, where I = provenance_inv])
       (auto intro: provenance_inv_initial provenance_inv_round)
  then show ?thesis
    unfolding provenance_inv_def provenance_def assms(2) by blast
qed

theorem candidates_provenance_witness:
  "task_greedy_forward_search ex_fit pick_first ex_effects (1 / 20) (- 1) ex_model = Some (Inr ex_final) \<and>
   length (all_candidates_so_far ex_final) = 5 \<and>
   steps (all_candidates_so_far ex_final ! 0) = [] \<and>
   steps (all_candidates_so_far ex_final ! 4) \<noteq> [] \<and>
   parent_model (model (all_candidates_so_far ex_final ! 4)) =
     Some (name (model (all_candidates_so_far ex_final ! 1))) \<and>
   list_all (\<lambda>s. \<not> is_backward s) (steps (all_candidates_so_far ex_final ! 4))"
proof -
  have len: "length (all_candidates_so_far ex_final) = 5"
    by code_simp
  have par: "parent_model (model (all_candidates_so_far ex_final ! 4)) =
     Some (name (model (all_candidates_so_far ex_final ! 1)))"
    by code_simp
  from candidates_provenance [OF ex_final_run refl] len
  have "steps (all_candidates_so_far ex_final ! 0) = []"
    and "steps (all_candidates_so_far ex_final ! 4) \<noteq> []"
    and "steps (all_candidates_so_far ex_final ! 4) \<noteq> [] \<longrightarrow>
         list_all (\<lambda>s. \<not> is_backward s) (steps (all_candidates_so_far ex_final ! 4))"
    by simp_all
  with ex_final_run len par show ?thesis by blast
qed

text \<open>
  The third part of C4 as it was stated, "exactly one of its steps has
  \<^verbatim>\<open>is_backward == False\<close>", fails for a candidate of the second round: it carries the
  forward step of its parent and its own.
\<close>

theorem one_forward_step_counterexample:
  "task_greedy_forward_search ex_fit pick_first ex_effects (1 / 20) (- 1) ex_model = Some (Inr ex_final) \<and>
   length (all_candidates_so_far ex_final) = 5 \<and>
   steps (all_candidates_so_far ex_final ! 4) =
     [ForwardStep (1 / 20) (AddEffect ''CL'' ''WGT'' ''exp'' ''*''),
      ForwardStep (1 / 20) (AddEffect ''V'' ''WGT'' ''exp'' ''*'')] \<and>
   count_forward (steps (all_candidates_so_far ex_final ! 4)) = 2 \<and>
   count_forward (steps (all_candidates_so_far ex_final ! 4)) \<noteq> 1"
proof -
  have "steps (all_candidates_so_far ex_final ! 4) =
     [ForwardStep (1 / 20) (AddEffect ''CL'' ''WGT'' ''exp'' ''*''),
      ForwardStep (1 / 20) (AddEffect ''V'' ''WGT'' ''exp'' ''*'')]"
    by code_simp
  moreover have "length (all_candidates_so_far ex_final) = 5"
    by code_simp
  ultimately show ?thesis
    using ex_final_run by (simp add: count_forward_def)
qed

section \<open>Workflow graphs\<close>

lemma set_add_edge [simp]: "set (add_edge e es) = insert e (set es)"
  by (auto simp: add_edge_def)

lemma set_add_edges [simp]: "set (add_edges new es) = set es \<union> set new"
  unfolding add_edges_def by (induction new arbitrary: es) auto

lemma add_edges_disjoint:
  assumes "distinct new" and "set new \<inter> set es = {}"
  shows "add_edges new es = es @ new"
  using assms unfolding add_edges_def
proof (induction new arbitrary: es)
  case Nil
  then show ?case by simp
next
  case (Cons e new)
  then have "add_edge e es = es @ [e]" by (simp add: add_edge_def)
  moreover from Cons.prems have "distinct new" "set new \<inter> set (es @ [e]) = {}" by auto
  ultimately show ?case using Cons.IH [of "es @ [e]"] by simp
qed

lemma set_add_node [simp]: "set (add_node t ns) = insert t (set ns)"
  by (auto simp: add_node_def)

lemma set_fold_add_node [simp]: "set (fold add_node ts ns) = set ns \<union> set ts"
  by (induction ts arbitrary: ns) auto

lemma fold_add_node_disjoint:
  assumes "distinct ts" and "set ts \<inter> set ns = {}"
  shows "fold add_node ts ns = ns @ ts"
  using assms
proof (induction ts arbitrary: ns)
  case Nil
  then show ?case by simp
next
  case (Cons t ts)
  then have "add_node t ns = ns @ [t]" by (simp add: add_node_def)
  moreover from Cons.prems have "distinct ts" "set ts \<inter> set (ns @ [t]) = {}" by auto
  ultimately show ?case using Cons.IH [of "ns @ [t]"] by simp
qed

lemma length_wiring [simp]: "length (wiring ps srcs) = length ps * length srcs"
  unfolding wiring_def by (induction srcs) auto

lemma set_wiring [simp]: "set (wiring ps srcs) = set ps \<times> set srcs"
  unfolding wiring_def by auto

lemma distinct_wiring:
  assumes "distinct ps" and "distinct srcs"
  shows "distinct (wiring ps srcs)"
  using assms(2) unfolding wiring_def
proof (induction srcs)
  case Nil
  then show ?case by simp
next
  case (Cons s srcs)
  have "distinct (map (\<lambda>p. (p, s)) ps)"
    using assms(1) by (simp add: distinct_map inj_on_def)
  with Cons show ?case by auto
qed

lemma preds_wiring:
  assumes "distinct srcs" and "s \<in> set srcs"
  shows "map fst (filter (\<lambda>e. snd e = s) (wiring ps srcs)) = ps"
  using assms unfolding wiring_def
proof (induction srcs)
  case Nil
  then show ?case by simp
next
  case (Cons a srcs)
  have same: "map fst (filter (\<lambda>e. snd e = s) (map (\<lambda>p. (p, s)) ps)) = ps"
    by (induction ps) auto
  have other: "filter (\<lambda>e. snd e = s) (map (\<lambda>p. (p, a)) ps) = []" if "a \<noteq> s"
    using that by (induction ps) auto
  have none: "filter (\<lambda>e. snd e = s) (concat (map (\<lambda>s'. map (\<lambda>p. (p, s')) ps) srcs)) = []"
    if "s \<notin> set srcs"
    using that by (induction srcs) (auto simp: filter_empty_conv)
  show ?case
  proof (cases "a = s")
    case True
    with Cons.prems have "s \<notin> set srcs" by simp
    with True same none show ?thesis by simp
  next
    case False
    with Cons.prems have "s \<in> set srcs" "distinct srcs" by auto
    with Cons.IH other [OF False] show ?thesis by simp
  qed
qed

lemma well_formed_edge:
  assumes "well_formed w" and "(a, b) \<in> set (edges w)"
  shows "a \<in> set (nodes w) \<and> b \<in> set (nodes w)"
  using assms by (auto simp: well_formed_def list_all_iff)

lemma compose_disjoint:
  assumes "well_formed self" and "well_formed other"
    and "set (nodes self) \<inter> set (nodes other) = {}"
  shows "compose self other =
           \<lparr> nodes = nodes self @ nodes other, edges = edges self @ edges other \<rparr>"
proof -
  have "set (edges other) \<inter> set (edges self) = {}"
  proof (rule ccontr)
    assume "set (edges other) \<inter> set (edges self) \<noteq> {}"
    then obtain a b where "(a, b) \<in> set (edges other)" "(a, b) \<in> set (edges self)" by auto
    with assms(1,2) have "a \<in> set (nodes self)" "a \<in> set (nodes other)"
      by (auto dest: well_formed_edge)
    with assms(3) show False by auto
  qed
  moreover from assms(2) have "distinct (edges other)" "distinct (nodes other)"
    by (simp_all add: well_formed_def)
  moreover from assms(3) have "set (nodes other) \<inter> set (nodes self) = {}" by auto
  ultimately show ?thesis
    by (simp add: compose_def add_edges_disjoint fold_add_node_disjoint)
qed

lemma insert_workflow_disjoint:
  assumes wf1: "well_formed self" and wf2: "well_formed other"
    and dis: "set (nodes self) \<inter> set (nodes other) = {}"
    and ps: "distinct ps" "set ps \<subseteq> set (nodes self)"
  shows "edges (insert_workflow self other (Some ps) connect) =
           edges self @ edges other @ wiring ps (get_source_tasks other)"
    and "nodes (insert_workflow self other (Some ps) connect) = nodes self @ nodes other"
proof -
  let ?w = "wiring ps (get_source_tasks other)"
  from wf2 have "distinct (get_source_tasks other)"
    by (simp add: get_source_tasks_def well_formed_def)
  with ps(1) have d: "distinct ?w" by (rule distinct_wiring)
  have "set ?w \<inter> set (edges self @ edges other) = {}"
  proof (rule ccontr)
    assume "set ?w \<inter> set (edges self @ edges other) \<noteq> {}"
    then obtain a b where ab: "(a, b) \<in> set ?w" "(a, b) \<in> set (edges self) \<union> set (edges other)"
      by auto
    from ab(1) ps(2) have "a \<in> set (nodes self)" "b \<in> set (nodes other)"
      by (auto simp: get_source_tasks_def)
    moreover from ab(2) wf1 wf2 have "b \<in> set (nodes self) \<or> a \<in> set (nodes other)"
      by (auto dest: well_formed_edge)
    ultimately show False using dis by auto
  qed
  with d show "edges (insert_workflow self other (Some ps) connect) =
           edges self @ edges other @ wiring ps (get_source_tasks other)"
    by (simp add: insert_workflow_def Let_def compose_disjoint [OF wf1 wf2 dis] add_edges_disjoint)
  show "nodes (insert_workflow self other (Some ps) connect) = nodes self @ nodes other"
    by (simp add: insert_workflow_def Let_def compose_disjoint [OF wf1 wf2 dis])
qed

lemma insert_workflow_None:
  "insert_workflow self other None connect =
     insert_workflow self other (Some (if connect then get_leaf_tasks self else [])) connect"
  by (simp add: insert_workflow_def)

lemma leaf_tasks_props:
  assumes "well_formed w"
  shows "distinct (get_leaf_tasks w)" and "set (get_leaf_tasks w) \<subseteq> set (nodes w)"
  using assms by (auto simp: get_leaf_tasks_def well_formed_def)

text \<open>
  The operations keep workflows well-formed: a new workflow is, connecting tasks that
  are nodes keeps it so, and so does merging workflows with disjoint nodes.
\<close>

lemma distinct_add_node: "distinct ns \<Longrightarrow> distinct (add_node t ns)"
  by (simp add: add_node_def)

lemma distinct_fold_add_node: "distinct ns \<Longrightarrow> distinct (fold add_node ts ns)"
  by (induction ts arbitrary: ns) (simp_all add: distinct_add_node)

lemma distinct_add_edge: "distinct es \<Longrightarrow> distinct (add_edge e es)"
  by (simp add: add_edge_def)

lemma distinct_add_edges: "distinct es \<Longrightarrow> distinct (add_edges new es)"
  unfolding add_edges_def by (induction new arbitrary: es) (simp_all add: distinct_add_edge)

lemma edges_new_workflow [simp]: "edges (new_workflow ts) = []"
  by (simp add: new_workflow_def add_tasks_def empty_workflow_def)

lemma well_formed_new_workflow: "well_formed (new_workflow ts)"
  by (simp add: well_formed_def new_workflow_def add_tasks_def empty_workflow_def
        distinct_fold_add_node)

lemma well_formed_connect_tasks:
  assumes "well_formed w"
    and "\<forall>e \<in> set (requested_edges mapping). fst e \<in> set (nodes w) \<and> snd e \<in> set (nodes w)"
  shows "well_formed (fst (connect_tasks w mapping))"
  using assms
  by (auto simp: connect_tasks_def Let_def well_formed_def list_all_iff distinct_add_edges)

lemma well_formed_merge_workflows:
  assumes "well_formed self" and "well_formed other"
    and "set (nodes self) \<inter> set (nodes other) = {}"
  shows "well_formed (merge_workflows self other connect)"
proof -
  let ?ps = "if connect then get_leaf_tasks self else []"
  have ps: "distinct ?ps" "set ?ps \<subseteq> set (nodes self)"
    using leaf_tasks_props [OF assms(1)] by auto
  note iw = insert_workflow_disjoint [OF assms ps, of connect]
  have e: "edges (merge_workflows self other connect) =
      edges self @ edges other @ wiring ?ps (get_source_tasks other)"
    and n: "nodes (merge_workflows self other connect) = nodes self @ nodes other"
    unfolding merge_workflows_def insert_workflow_None using iw by simp_all
  have "distinct (add_edges (wiring ?ps (get_source_tasks other))
                   (add_edges (edges other) (edges self)))"
    using assms(1) by (simp add: distinct_add_edges well_formed_def)
  moreover have "edges (merge_workflows self other connect) =
      add_edges (wiring ?ps (get_source_tasks other)) (add_edges (edges other) (edges self))"
    by (simp add: merge_workflows_def insert_workflow_def Let_def compose_def)
  ultimately have d: "distinct (edges (merge_workflows self other connect))" by simp
  have "fst x \<in> set (nodes self @ nodes other) \<and> snd x \<in> set (nodes self @ nodes other)"
    if "x \<in> set (edges self @ edges other @ wiring ?ps (get_source_tasks other))" for x
  proof -
    obtain a b where x: "x = (a, b)" by (cases x)
    from that consider "(a, b) \<in> set (edges self)" | "(a, b) \<in> set (edges other)"
      | "(a, b) \<in> set (wiring ?ps (get_source_tasks other))"
      unfolding x by auto
    then show ?thesis
    proof cases
      case 1
      with assms(1) show ?thesis unfolding x by (auto dest: well_formed_edge)
    next
      case 2
      with assms(2) show ?thesis unfolding x by (auto dest: well_formed_edge)
    next
      case 3
      then have "a \<in> set ?ps" "b \<in> set (get_source_tasks other)" by simp_all
      with ps(2) show ?thesis unfolding x by (auto simp: get_source_tasks_def)
    qed
  qed
  with d n e assms(1,2) assms(3) show ?thesis
    by (auto simp: well_formed_def list_all_iff)
qed

text \<open>The assertions of \<^verbatim>\<open>tests/tools/test_workflows.py\<close>, replayed on the model.\<close>

lemma test_get_leaf_tasks:
  "get_leaf_tasks ex_wf = [''t2'', ''t3''] \<and>
   get_leaf_tasks (fst (connect_tasks (add_tasks ex_wf [''t4''])
                          [(''t2'', One ''t4''), (''t3'', One ''t4'')])) = [''t4'']"
  by code_simp

lemma test_connect_tasks:
  "successors (fst (connect_tasks (new_workflow [''t1'', ''t2'', ''t3'', ''t4''])
       [(''t1'', Many [''t2'', ''t3'']), (''t2'', One ''t4''), (''t3'', One ''t4'')])) ''t1'' = [''t2'', ''t3''] \<and>
   predecessors (fst (connect_tasks (new_workflow [''t1'', ''t2'', ''t3'', ''t4''])
       [(''t1'', Many [''t2'', ''t3'']), (''t2'', One ''t4''), (''t3'', One ''t4'')])) ''t4'' = [''t2'', ''t3''] \<and>
   snd (connect_tasks (fst (connect_tasks (new_workflow [''t1'', ''t2'', ''t3'', ''t4''])
       [(''t1'', Many [''t2'', ''t3'']), (''t2'', One ''t4''), (''t3'', One ''t4'')])) [(''t1'', One ''t1'')])
     = Some ValueError"
  by code_simp

lemma test_merge_workflows:
  "length (edges ex_wf) = 2 \<and> successors ex_wf ''t1'' = [''t2'', ''t3''] \<and>
   predecessors (merge_workflows ex_wf ex_wf_t4 True) ''t4'' = [''t2'', ''t3''] \<and>
   length (edges (merge_workflows ex_wf ex_wf_t4 True)) = 4 \<and>
   nodes (merge_workflows ex_wf ex_wf_t4 True) = [''t1'', ''t2'', ''t3'', ''t4''] \<and>
   predecessors (merge_workflows ex_wf ex_wf_t4 False) ''t4'' = [] \<and>
   length (edges (merge_workflows ex_wf ex_wf_t4 False)) = 2 \<and>
   nodes (merge_workflows ex_wf ex_wf_t4 False) = [''t1'', ''t2'', ''t3'', ''t4'']"
  by code_simp

lemma ex_wf_well_formed: "well_formed ex_wf" "well_formed ex_wf_t4"
  by code_simp+

lemma ex_wf_disjoint: "set (nodes ex_wf) \<inter> set (nodes ex_wf_t4) = {}"
  by code_simp

text \<open>
  C6: for well-formed workflows with disjoint node sets, merging with \<^verbatim>\<open>connect=True\<close>
  gives as many edges as both workflows had plus one for every pair of a former leaf
  task of the receiver and a source task of the other workflow, and every source task
  of the other workflow gets exactly the former leaf tasks as predecessors, in order;
  merging with \<^verbatim>\<open>connect=False\<close> gives the edges of both and no edge, in either
  direction, between a node of the one and a node of the other.
\<close>

theorem merge_algebra:
  assumes "well_formed self" and "well_formed other"
    and "set (nodes self) \<inter> set (nodes other) = {}"
  shows "length (edges (merge_workflows self other True)) =
           length (edges self) + length (edges other) +
           length (get_leaf_tasks self) * length (get_source_tasks other) \<and>
         (\<forall>s \<in> set (get_source_tasks other).
            predecessors (merge_workflows self other True) s = get_leaf_tasks self) \<and>
         length (edges (merge_workflows self other False)) = length (edges self) + length (edges other) \<and>
         edges (merge_workflows self other False) = edges self @ edges other \<and>
         (\<forall>a \<in> set (nodes self). \<forall>b \<in> set (nodes other).
            (a, b) \<notin> set (edges (merge_workflows self other False)) \<and>
            (b, a) \<notin> set (edges (merge_workflows self other False)))"
proof -
  note lp = leaf_tasks_props [OF assms(1)]
  have eT: "edges (merge_workflows self other True) =
      edges self @ edges other @ wiring (get_leaf_tasks self) (get_source_tasks other)"
    unfolding merge_workflows_def insert_workflow_None
    using insert_workflow_disjoint(1) [OF assms lp] by simp
  have eF: "edges (merge_workflows self other False) = edges self @ edges other"
    unfolding merge_workflows_def insert_workflow_None
    using insert_workflow_disjoint(1) [OF assms, of "[]" False] by (simp add: wiring_def)
  have preds: "predecessors (merge_workflows self other True) s = get_leaf_tasks self"
    if s: "s \<in> set (get_source_tasks other)" for s
  proof -
    from s have s_other: "s \<in> set (nodes other)" and deg: "in_degree other s = 0"
      by (simp_all add: get_source_tasks_def)
    have "filter (\<lambda>e. snd e = s) (edges self) = []"
    proof -
      have "snd e \<noteq> s" if "e \<in> set (edges self)" for e
      proof
        assume "snd e = s"
        with that have "(fst e, s) \<in> set (edges self)" by (metis prod.collapse)
        with assms(1) have "s \<in> set (nodes self)" by (auto dest: well_formed_edge)
        with s_other assms(3) show False by auto
      qed
      then show ?thesis by (simp add: filter_empty_conv)
    qed
    moreover from deg have "filter (\<lambda>e. snd e = s) (edges other) = []"
      by (simp add: in_degree_def predecessors_def)
    moreover from assms(2) have "distinct (get_source_tasks other)"
      by (simp add: get_source_tasks_def well_formed_def)
    ultimately show ?thesis
      using preds_wiring [OF _ s, of "get_leaf_tasks self"]
      by (simp add: predecessors_def eT)
  qed
  have sep: "(a, b) \<notin> set (edges (merge_workflows self other False)) \<and>
             (b, a) \<notin> set (edges (merge_workflows self other False))"
    if "a \<in> set (nodes self)" "b \<in> set (nodes other)" for a b
  proof -
    from that assms(3) have "a \<notin> set (nodes other)" "b \<notin> set (nodes self)" by auto
    with assms(1,2) show ?thesis
      unfolding eF by (auto dest: well_formed_edge)
  qed
  from eT eF preds sep show ?thesis by simp
qed

theorem merge_algebra_witness:
  "well_formed ex_wf \<and> well_formed ex_wf_t4 \<and> set (nodes ex_wf) \<inter> set (nodes ex_wf_t4) = {} \<and>
   length (get_leaf_tasks ex_wf) = 2 \<and> get_source_tasks ex_wf_t4 = [''t4''] \<and>
   length (edges (merge_workflows ex_wf ex_wf_t4 True)) = 4 \<and>
   predecessors (merge_workflows ex_wf ex_wf_t4 True) ''t4'' = [''t2'', ''t3''] \<and>
   length (edges (merge_workflows ex_wf ex_wf_t4 False)) = 2 \<and>
   (''t2'', ''t4'') \<notin> set (edges (merge_workflows ex_wf ex_wf_t4 False))"
proof -
  have l: "get_leaf_tasks ex_wf = [''t2'', ''t3'']" and s: "get_source_tasks ex_wf_t4 = [''t4'']"
    and e: "length (edges ex_wf) = 2" "length (edges ex_wf_t4) = 0"
    and n: "''t2'' \<in> set (nodes ex_wf)" "''t4'' \<in> set (nodes ex_wf_t4)"
    by code_simp+
  note m = merge_algebra [OF ex_wf_well_formed ex_wf_disjoint]
  from m l s e have a: "length (edges (merge_workflows ex_wf ex_wf_t4 True)) = 4"
    by simp
  from m l s have b: "predecessors (merge_workflows ex_wf ex_wf_t4 True) ''t4'' = [''t2'', ''t3'']"
    by simp
  from m e have c: "length (edges (merge_workflows ex_wf ex_wf_t4 False)) = 2"
    by simp
  from m have "\<forall>a \<in> set (nodes ex_wf). \<forall>b \<in> set (nodes ex_wf_t4).
            (a, b) \<notin> set (edges (merge_workflows ex_wf ex_wf_t4 False)) \<and>
            (b, a) \<notin> set (edges (merge_workflows ex_wf ex_wf_t4 False))"
    by blast
  with n have d: "(''t2'', ''t4'') \<notin> set (edges (merge_workflows ex_wf ex_wf_t4 False))"
    by blast
  note a b c d
  with ex_wf_well_formed ex_wf_disjoint l s show ?thesis by simp
qed
















lemma connect_tasks_acyclic:
  assumes "acyclic (set (edges w))"
  shows "acyclic (set (edges (fst (connect_tasks w mapping))))"
  using assms by (simp add: connect_tasks_def Let_def)

lemma connect_tasks_seq_acyclic:
  assumes "acyclic (set (edges w))"
  shows "acyclic (set (edges (connect_tasks_seq w mappings)))"
  using assms
proof (induction mappings arbitrary: w)
  case Nil
  then show ?case by simp
next
  case (Cons mapping rest)
  from Cons.prems have "acyclic (set (edges (fst (connect_tasks w mapping))))"
    by (rule connect_tasks_acyclic)
  then show ?case by (simp add: Cons.IH)
qed

lemma acyclic_no_self_loop:
  assumes "acyclic r"
  shows "(t, t) \<notin> r"
  using assms by (auto simp: acyclic_def)

text \<open>
  C7: \<^verbatim>\<open>connect_tasks\<close> raises \<^verbatim>\<open>ValueError\<close> whenever an entry of the mapping connects a
  task to itself, and raises whenever the graph with the requested edges would have a
  cycle; any sequence of calls on a new workflow, or on an acyclic one, leaves the graph
  acyclic, and a call that raised leaves a graph with no cycle and no self-loop.
\<close>

theorem connect_tasks_keeps_acyclic:
  "((p, ss) \<in> set mapping \<and> p \<in> set (succ_list ss) \<longrightarrow>
      snd (connect_tasks w mapping) = Some ValueError) \<and>
   (\<not> acyclic (set (edges w) \<union> set (requested_edges mapping)) \<longrightarrow>
      snd (connect_tasks w mapping) \<noteq> None) \<and>
   acyclic (set (edges (connect_tasks_seq (new_workflow ts) mappings))) \<and>
   (acyclic (set (edges w)) \<longrightarrow>
      acyclic (set (edges (connect_tasks_seq w mappings))) \<and>
      (snd (connect_tasks w mapping) \<noteq> None \<longrightarrow>
         acyclic (set (edges (fst (connect_tasks w mapping)))) \<and>
         (t, t) \<notin> set (edges (fst (connect_tasks w mapping)))))"
proof (intro conjI impI)
  show "acyclic (set (edges (connect_tasks_seq (new_workflow ts) mappings)))"
    by (rule connect_tasks_seq_acyclic) (simp add: acyclic_def)
next
  assume "(p, ss) \<in> set mapping \<and> p \<in> set (succ_list ss)"
  then have "(p, p) \<in> set (requested_edges mapping)"
    unfolding requested_edges_def by force
  then have "list_ex (\<lambda>(p, s). p = s) (requested_edges mapping)"
    unfolding list_ex_iff by force
  then show "snd (connect_tasks w mapping) = Some ValueError"
    by (simp add: connect_tasks_def Let_def)
next
  assume "\<not> acyclic (set (edges w) \<union> set (requested_edges mapping))"
  then show "snd (connect_tasks w mapping) \<noteq> None"
    by (simp add: connect_tasks_def Let_def)
next
  assume "acyclic (set (edges w))"
  then show "acyclic (set (edges (connect_tasks_seq w mappings)))"
    by (rule connect_tasks_seq_acyclic)
next
  assume "acyclic (set (edges w))"
  then show "acyclic (set (edges (fst (connect_tasks w mapping))))"
    by (rule connect_tasks_acyclic)
next
  assume "acyclic (set (edges w))"
  then have "acyclic (set (edges (fst (connect_tasks w mapping))))"
    by (rule connect_tasks_acyclic)
  then show "(t, t) \<notin> set (edges (fst (connect_tasks w mapping)))"
    by (rule acyclic_no_self_loop)
qed

theorem connect_tasks_keeps_acyclic_witness:
  "(''t1'', One ''t1'') \<in> set [(''t1'', One ''t1'')] \<and> ''t1'' \<in> set (succ_list (One ''t1'')) \<and>
   snd (connect_tasks ex_wf_dag [(''t1'', One ''t1'')]) = Some ValueError \<and>
   \<not> acyclic (set (edges ex_wf_dag) \<union> set (requested_edges [(''t4'', One ''t1'')])) \<and>
   snd (connect_tasks ex_wf_dag [(''t4'', One ''t1'')]) = Some CycleError \<and>
   acyclic (set (edges ex_wf_dag)) \<and>
   acyclic (set (edges (connect_tasks_seq ex_wf_dag [[(''t4'', One ''t1'')], [(''t1'', One ''t1'')]]))) \<and>
   acyclic (set (edges (fst (connect_tasks ex_wf_dag [(''t4'', One ''t1'')])))) \<and>
   (''t4'', ''t4'') \<notin> set (edges (fst (connect_tasks ex_wf_dag [(''t4'', One ''t1'')])))"
proof -
  have a: "(''t1'', One ''t1'') \<in> set [(''t1'', One ''t1'')] \<and> ''t1'' \<in> set (succ_list (One ''t1''))"
    by simp
  have b: "\<not> acyclic (set (edges ex_wf_dag) \<union> set (requested_edges [(''t4'', One ''t1'')]))"
    by code_simp
  have c: "acyclic (set (edges ex_wf_dag))"
    by code_simp
  have d: "snd (connect_tasks ex_wf_dag [(''t4'', One ''t1'')]) = Some CycleError"
    by code_simp
  from connect_tasks_keeps_acyclic [of "''t1''" "One ''t1''" "[(''t1'', One ''t1'')]" ex_wf_dag] a
  have e: "snd (connect_tasks ex_wf_dag [(''t1'', One ''t1'')]) = Some ValueError"
    by blast
  from connect_tasks_keeps_acyclic [of _ _ "[(''t4'', One ''t1'')]" ex_wf_dag _
      "[[(''t4'', One ''t1'')], [(''t1'', One ''t1'')]]" "''t4''"] b c d
  have "snd (connect_tasks ex_wf_dag [(''t4'', One ''t1'')]) \<noteq> None"
    and "acyclic (set (edges (connect_tasks_seq ex_wf_dag [[(''t4'', One ''t1'')], [(''t1'', One ''t1'')]])))"
    and "acyclic (set (edges (fst (connect_tasks ex_wf_dag [(''t4'', One ''t1'')]))))"
    and "(''t4'', ''t4'') \<notin> set (edges (fst (connect_tasks ex_wf_dag [(''t4'', One ''t1'')])))"
    by simp_all
  with a b c d e show ?thesis by simp
qed

lemma out_degree_zero_iff: "out_degree w t = 0 \<longleftrightarrow> (\<forall>v. (t, v) \<notin> set (edges w))"
  by (auto simp: out_degree_def successors_def filter_empty_conv)

text \<open>
  C8: \<^verbatim>\<open>get_leaf_tasks()\<close> is the list of the nodes without outgoing edge, in the order
  of the nodes; after \<open>P\<close> was connected to \<open>A\<close> and \<open>B\<close>, it excludes \<open>P\<close> and includes
  \<open>A\<close> and \<open>B\<close> when they are nodes without outgoing edges.
\<close>

theorem leaf_tasks_out_degree_zero:
  "get_leaf_tasks w = filter (\<lambda>t. \<forall>v. (t, v) \<notin> set (edges w)) (nodes w) \<and>
   (connect_tasks w [(P, Many [A, B])] = (w', None) \<longrightarrow>
      P \<notin> set (get_leaf_tasks w') \<and>
      (A \<in> set (nodes w') \<and> (\<forall>v. (A, v) \<notin> set (edges w')) \<longrightarrow> A \<in> set (get_leaf_tasks w')) \<and>
      (B \<in> set (nodes w') \<and> (\<forall>v. (B, v) \<notin> set (edges w')) \<longrightarrow> B \<in> set (get_leaf_tasks w')))"
proof (intro conjI impI)
  show eq: "get_leaf_tasks w = filter (\<lambda>t. \<forall>v. (t, v) \<notin> set (edges w)) (nodes w)"
    by (simp add: get_leaf_tasks_def out_degree_zero_iff)
  assume c: "connect_tasks w [(P, Many [A, B])] = (w', None)"
  then have "edges w' = add_edges [(P, A), (P, B)] (edges w)"
    by (auto simp: connect_tasks_def Let_def requested_edges_def split: if_splits)
  then have "(P, A) \<in> set (edges w')" by simp
  then show "P \<notin> set (get_leaf_tasks w')"
    by (auto simp: get_leaf_tasks_def out_degree_zero_iff)
next
  assume "A \<in> set (nodes w') \<and> (\<forall>v. (A, v) \<notin> set (edges w'))"
  then show "A \<in> set (get_leaf_tasks w')"
    by (simp add: get_leaf_tasks_def out_degree_zero_iff)
next
  assume "B \<in> set (nodes w') \<and> (\<forall>v. (B, v) \<notin> set (edges w'))"
  then show "B \<in> set (get_leaf_tasks w')"
    by (simp add: get_leaf_tasks_def out_degree_zero_iff)
qed

theorem leaf_tasks_out_degree_zero_witness:
  "connect_tasks (new_workflow [''t1'', ''t2'', ''t3'']) [(''t1'', Many [''t2'', ''t3''])] = (ex_wf, None) \<and>
   ''t2'' \<in> set (nodes ex_wf) \<and> ''t3'' \<in> set (nodes ex_wf) \<and>
   get_leaf_tasks ex_wf = [''t2'', ''t3''] \<and>
   ''t1'' \<notin> set (get_leaf_tasks ex_wf) \<and> ''t2'' \<in> set (get_leaf_tasks ex_wf) \<and>
   ''t3'' \<in> set (get_leaf_tasks ex_wf)"
proof -
  have c: "connect_tasks (new_workflow [''t1'', ''t2'', ''t3'']) [(''t1'', Many [''t2'', ''t3''])] = (ex_wf, None)"
    by code_simp
  have n: "''t2'' \<in> set (nodes ex_wf)" "''t3'' \<in> set (nodes ex_wf)"
    by code_simp+
  have e: "edges ex_wf = [(''t1'', ''t2''), (''t1'', ''t3'')]"
    by code_simp
  have l: "get_leaf_tasks ex_wf = [''t2'', ''t3'']"
    by code_simp
  from leaf_tasks_out_degree_zero [of "new_workflow [''t1'', ''t2'', ''t3'']" "''t1''" "''t2''" "''t3''" ex_wf]
    c n e
  have "''t1'' \<notin> set (get_leaf_tasks ex_wf)" and "''t2'' \<in> set (get_leaf_tasks ex_wf)"
    and "''t3'' \<in> set (get_leaf_tasks ex_wf)"
    by simp_all
  with c n l show ?thesis by simp
qed

section \<open>A broken ext-file\<close>

lemma path_str_examples:
  "path_str (with_suffix \<lparr> parent_dir = ''.'', stem = ''pheno'', suffix = ''.lst'' \<rparr> ''.ext'') = ''pheno.ext'' \<and>
   path_str (with_suffix \<lparr> parent_dir = ''/'', stem = ''pheno'', suffix = ''.lst'' \<rparr> ''.ext'') = ''/pheno.ext'' \<and>
   path_str (with_suffix \<lparr> parent_dir = ''run'', stem = ''pheno'', suffix = ''.lst'' \<rparr> ''.ext'') = ''run/pheno.ext''"
  by (simp add: path_str_def with_suffix_def)

text \<open>
  C9, as amended: when the reader has a model with at least one estimation step and
  parsing the ext-file raises \<^verbatim>\<open>ValueError\<close>, \<^verbatim>\<open>_read_ext_table\<close> does not raise: it adds
  one error entry to the log and appends one result object, whose parameter estimates
  are NaN for every parameter that is not fixed, whose \<^verbatim>\<open>ofv\<close> is NaN and whose standard
  errors are NaN for those parameters when the first estimation step requests the
  covariance step and \<^verbatim>\<open>None\<close> otherwise.
\<close>

theorem broken_ext_file_nan_results:
  assumes "chain_model self = Some m" and "estimation_steps m = step0 # others"
  shows "\<exists>r. read_ext_table read_tables (Inl ValueError) self =
              Inr (self\<lparr> log_entries := log_entries self @
                             [(''ERROR'', ''Broken ext-file '' @ path_str (with_suffix (chain_path self) ''.ext''))],
                         chain := chain self @ [r] \<rparr>) \<and>
             parameter_estimates r = Some (nan_series ''estimates'' (nonfixed_inits_keys m)) \<and>
             list_all (\<lambda>p. fixed p \<or> (parameter_name p, NaN) \<in> set (items (the (parameter_estimates r))))
               (parameters m) \<and>
             ofv r = Some NaN \<and>
             standard_errors r =
               (if cov step0 then Some (nan_series ''SE'' (nonfixed_inits_keys m)) else None)"
proof -
  define r where "r = \<lparr> model_name = Some (stem (chain_path self)), results_model = Some m,
      parameter_estimates = Some (nan_series ''estimates'' (nonfixed_inits_keys m)),
      ofv = Some NaN,
      standard_errors = (if cov step0 then Some (nan_series ''SE'' (nonfixed_inits_keys m)) else None),
      table_number = Some 1 \<rparr>"
  have run: "read_ext_table read_tables (Inl ValueError) self =
              Inr (self\<lparr> log_entries := log_entries self @
                             [(''ERROR'', ''Broken ext-file '' @ path_str (with_suffix (chain_path self) ''.ext''))],
                         chain := chain self @ [r] \<rparr>)"
    using assms
    by (simp add: read_ext_table_def log_error_def fill_empty_results_def Let_def
          NONMEMModelfitResults_def r_def)
  have nan: "list_all (\<lambda>p. fixed p \<or> (parameter_name p, NaN) \<in> set (items (the (parameter_estimates r))))
               (parameters m)"
    by (auto simp: list_all_iff nan_series_def nonfixed_inits_keys_def r_def)
  have "parameter_estimates r = Some (nan_series ''estimates'' (nonfixed_inits_keys m))"
    and "ofv r = Some NaN"
    and "standard_errors r =
               (if cov step0 then Some (nan_series ''SE'' (nonfixed_inits_keys m)) else None)"
    by (simp_all add: r_def)
  with run nan show ?thesis by blast
qed

theorem broken_ext_file_nan_results_witness:
  "chain_model (ex_chain (Some ex_nm_model)) = Some ex_nm_model \<and>
   estimation_steps ex_nm_model = \<lparr> cov = True \<rparr> # [] \<and>
   read_ext_table (\<lambda>self tables. Inr self) (Inl ValueError :: error + unit) (ex_chain (Some ex_nm_model)) =
     Inr ((ex_chain (Some ex_nm_model))\<lparr>
        log_entries := [(''ERROR'', ''Broken ext-file run/pheno.ext'')],
        chain := [\<lparr> model_name = Some ''pheno'', results_model = Some ex_nm_model,
           parameter_estimates = Some \<lparr> series_name = ''estimates'',
              items = [(''THETA(1)'', NaN), (''OMEGA(1,1)'', NaN)] \<rparr>,
           ofv = Some NaN,
           standard_errors = Some \<lparr> series_name = ''SE'',
              items = [(''THETA(1)'', NaN), (''OMEGA(1,1)'', NaN)] \<rparr>,
           table_number = Some 1 \<rparr>] \<rparr>)"
proof -
  have a: "chain_model (ex_chain (Some ex_nm_model)) = Some ex_nm_model"
    by (simp add: ex_chain_def)
  have b: "estimation_steps ex_nm_model = \<lparr> cov = True \<rparr> # []"
    by (simp add: ex_nm_model_def)
  from broken_ext_file_nan_results [OF a b, of "\<lambda>self tables. Inr self"]
  obtain r :: ModelfitResults where
    "read_ext_table (\<lambda>self tables. Inr self) (Inl ValueError :: error + unit) (ex_chain (Some ex_nm_model)) =
       Inr ((ex_chain (Some ex_nm_model))\<lparr> log_entries := log_entries (ex_chain (Some ex_nm_model)) @
                             [(''ERROR'', ''Broken ext-file '' @ path_str (with_suffix (chain_path (ex_chain (Some ex_nm_model))) ''.ext''))],
                         chain := chain (ex_chain (Some ex_nm_model)) @ [r] \<rparr>)"
    by blast
  then show ?thesis using a b
    by (simp add: read_ext_table_def log_error_def fill_empty_results_def Let_def
          NONMEMModelfitResults_def ex_chain_def ex_nm_model_def nan_series_def
          nonfixed_inits_keys_def path_str_def with_suffix_def)
qed

text \<open>
  C9 as it was stated fails when the reader has no model, or a model without
  estimation step: the handler of the \<^verbatim>\<open>ValueError\<close> raises itself. And when the
  covariance step is requested by a later estimation step only, the standard errors
  are \<^verbatim>\<open>None\<close>.
\<close>

theorem broken_ext_file_raises_counterexample:
  "read_ext_table (\<lambda>self tables. Inr self) (Inl ValueError :: error + unit) (ex_chain None)
     = Inl AttributeError \<and>
   read_ext_table (\<lambda>self tables. Inr self) (Inl ValueError :: error + unit)
     (ex_chain (Some (ex_nm_model\<lparr> estimation_steps := [] \<rparr>))) = Inl IndexError \<and>
   read_ext_table (\<lambda>self tables. Inr self) (Inl ValueError :: error + unit)
     (ex_chain (Some (ex_nm_model\<lparr> estimation_steps := [\<lparr> cov = False \<rparr>, \<lparr> cov = True \<rparr>] \<rparr>))) =
     Inr ((ex_chain (Some (ex_nm_model\<lparr> estimation_steps := [\<lparr> cov = False \<rparr>, \<lparr> cov = True \<rparr>] \<rparr>)))\<lparr>
        log_entries := [(''ERROR'', ''Broken ext-file run/pheno.ext'')],
        chain := [\<lparr> model_name = Some ''pheno'',
           results_model = Some (ex_nm_model\<lparr> estimation_steps := [\<lparr> cov = False \<rparr>, \<lparr> cov = True \<rparr>] \<rparr>),
           parameter_estimates = Some \<lparr> series_name = ''estimates'',
              items = [(''THETA(1)'', NaN), (''OMEGA(1,1)'', NaN)] \<rparr>,
           ofv = Some NaN,
           standard_errors = None,
           table_number = Some 1 \<rparr>] \<rparr>)"
  by (simp add: read_ext_table_def log_error_def fill_empty_results_def Let_def
        NONMEMModelfitResults_def ex_chain_def ex_nm_model_def nan_series_def
        nonfixed_inits_keys_def path_str_def with_suffix_def)

section \<open>The assertion on the selected rows\<close>

text \<open>
  C10: every row marked selected should be significant, so that the assertion of
  \<^verbatim>\<open>_marke_df_steps_row\<close> never fails on the candidates of the forward search. It does
  fail on the search whose start model \<open>pheno\<close> has the \<^verbatim>\<open>parent_model\<close> \<open>pheno-1\<close>: the
  counter counts the parent name of the starting candidate too, so the candidate
  \<open>pheno-1\<close> is marked selected although nothing selected it and its p-value is above
  the threshold. With a start model that names no parent, the same search gives the
  row, not selected and not significant.
\<close>

theorem selected_by_parent_name_of_start_model:
  "candidates_of (task_greedy_forward_search ex_fit_flat pick_parent [(''CL'', ''WGT'', ''exp'', ''*'')]
       (1 / 20) (- 1) ex_renamed_model) =
     [\<lparr> model = ex_renamed_model, steps = [] \<rparr>,
      \<lparr> model = \<lparr> oid = 1, name = ''pheno-1'',
                  description = ''add_covariate_effect(<pheno>, CL, WGT, exp, *)'',
                  parent_model = Some ''pheno'', modelfit_results = Some 730 \<rparr>,
        steps = [ForwardStep (1 / 20) (AddEffect ''CL'' ''WGT'' ''exp'' ''*'')] \<rparr>] \<and>
   make_df_steps ex_p_value ex_n_parameters ex_database_path ex_renamed_model
     (candidates_of (task_greedy_forward_search ex_fit_flat pick_parent [(''CL'', ''WGT'', ''exp'', ''*'')]
        (1 / 20) (- 1) ex_renamed_model)) = Inl AssertionError \<and>
   make_df_steps ex_p_value ex_n_parameters ex_database_path ex_model
     (candidates_of (task_greedy_forward_search ex_fit_flat pick_parent [(''CL'', ''WGT'', ''exp'', ''*'')]
        (1 / 20) (- 1) ex_model)) =
     Inr [\<lparr> row_step = 1, row_parameter = ''CL'', row_covariate = ''WGT'', extended_state = ''* exp'',
            reduced_ofv = 730, extended_ofv = 730, ofv_drop = 0, delta_df = 1, pvalue = 1,
            goal_pvalue = 1 / 20, row_is_backward = False, extended_significant = False,
            selected = False, directory = ''.'', row_model = ''pheno-1'',
            covariate_effects = NaN \<rparr>]"
  by (simp add: candidates_of_def task_greedy_forward_search_def greedy_loop.simps
        ex_defs round_defs ex_renamed_model_def str_nat.simps digit_char_def join_effect_def
        NAME_WF_def make_df_steps_def marke_df_steps_row_def ofv_of_def ex_p_value_def
        ex_n_parameters_def ex_database_path_def ex_fit_flat_def)

end
